theory Spec2Isabelle
  imports Complex_Main "HOL-Library.Multiset" "HOL-Library.Char_ord" "HOL-Library.List_Lexorder"
begin

section \<open>The image sets partitioner of NiftyNet\<close>

text \<open>
  A shallow embedding of \<^verbatim>\<open>niftynet/io/image_sets_partitioner.py\<close>: the class
  \<^verbatim>\<open>ImageSetsPartitioner\<close> keeps a table of file names per subject
  (\<^verbatim>\<open>_file_list\<close>) and a table of partition labels per subject
  (\<^verbatim>\<open>_partition_ids\<close>). Every method is a function from the object's state to a
  result and the state it leaves behind; an exception is the left summand of the result,
  and the state at the moment of the \<^verbatim>\<open>raise\<close> is returned with it.
\<close>

subsection \<open>Exceptions, constants, log records\<close>

datatype py_error =
  ValueError | IOError | RuntimeError | TypeError | AttributeError | OverflowError | ParserError

definition COLUMN_UNIQ_ID :: string where "COLUMN_UNIQ_ID = ''subject_id''"
definition COLUMN_PHASE :: string where "COLUMN_PHASE = ''phase''"
definition TRAIN :: string where "TRAIN = ''train''"
definition VALID :: string where "VALID = ''validation''"
definition INFER :: string where "INFER = ''inference''"
definition ALL_PHASE :: string where "ALL_PHASE = ''all''"

definition SUPPORTED_PHASES :: "string set" where
  "SUPPORTED_PHASES = {TRAIN, VALID, INFER, ALL_PHASE}"

datatype level = FATAL | WARNING | INFO

text \<open>One constructor per call of \<^verbatim>\<open>tf.logging\<close> in the source, with its arguments.\<close>

datatype message =
    Empty_file_list
  | No_partition_ids
  | Unable_to_create_partitions
  | Unable_to_load string
  | Empty_subset string
  | Nothing_to_load
  | Rows_not_matched string
  | Empty_filename_lists
  | Unknown_section string
  | Missing_csv_file_field
  | Search_file_folders string string
  | Using_existing_csv string string
  | Csv_not_found string string
  | Csv_error py_error
  | Unknown_fraction_format
  | Ignoring_ratios
  | Summary

subsection \<open>Tables\<close>

text \<open>
  A data frame whose first column is \<^verbatim>\<open>subject_id\<close>: a row is its index label, its
  subject id and the cells of the remaining columns, \<open>columns\<close> names those remaining
  columns. Every frame the class builds has this shape (\<^verbatim>\<open>read_csv\<close> is called with
  \<^verbatim>\<open>names=[COLUMN_UNIQ_ID, ...]\<close>, and a merge on the key keeps it first). A cell is
  a string or missing (\<open>None\<close>, the NaN of pandas).
\<close>

type_synonym cell = "string option"

type_synonym row = "nat \<times> cell \<times> cell list"

record frame =
  columns :: "string list"
  rows :: "row list"

text \<open>A two-column frame as \<^verbatim>\<open>pandas.read_csv\<close> returns it: label, subject id, value.\<close>

type_synonym frame2 = "(nat \<times> cell \<times> cell) list"

text \<open>A frame with arbitrary columns, as a column selection returns it.\<close>

record table =
  tcolumns :: "string list"
  trows :: "(nat \<times> cell list) list"

text \<open>
  The content of a file: two-column rows of text, or something the csv reader raises on.
\<close>

datatype csv_content = Unparsable | Csv "(string \<times> string) list"

text \<open>
  The texts that \<^verbatim>\<open>pandas.read_csv\<close> takes for a missing value when no
  \<^verbatim>\<open>na_values\<close> are passed, as its documentation lists them. The list belongs to the
  installed pandas; the state below carries the one in force.
\<close>

definition pandas_na_values :: "string set" where
  "pandas_na_values =
     {[], ''#N/A'', ''#N/A N/A'', ''#NA'', ''-1.#IND'', ''-1.#QNAN'', ''-NaN'', ''-nan'',
      ''1.#IND'', ''1.#QNAN'', ''<NA>'', ''N/A'', ''NA'', ''NULL'', ''NaN'', ''None'', ''n/a'',
      ''nan'', ''null''}"

definition na_cell :: "string set \<Rightarrow> string \<Rightarrow> cell" where
  "na_cell na s = (if s \<in> na then None else Some s)"

definition read_rows :: "string set \<Rightarrow> (string \<times> string) list \<Rightarrow> frame2" where
  "read_rows na rs = enumerate 0 (map (\<lambda>(s, v). (na_cell na s, na_cell na v)) rs)"

text \<open>
  \<^verbatim>\<open>pandas.read_csv(file, header=None, dtype=(str, str), names=names)\<close>: the names
  must differ from each other, the rows are labelled \<open>0, 1, ...\<close>, and a cell whose text
  stands for a missing value is missing.
\<close>

definition read_csv :: "string set \<Rightarrow> csv_content \<Rightarrow> string list \<Rightarrow> py_error + frame2" where
  "read_csv na c names =
     (if \<not> distinct names then Inl ValueError
      else case c of
             Unparsable \<Rightarrow> Inl ParserError
           | Csv rs \<Rightarrow> Inr (read_rows na rs))"

text \<open>What the csv writer makes of a cell: a missing value is written as \<^verbatim>\<open>nan\<close>.\<close>

definition cell_text :: "cell \<Rightarrow> string" where
  "cell_text c = (case c of None \<Rightarrow> ''nan'' | Some s \<Rightarrow> s)"

definition named :: "string \<Rightarrow> frame2 \<Rightarrow> frame" where
  "named name t = \<lparr>columns = [name], rows = map (\<lambda>(i, s, v). (i, s, [v])) t\<rparr>"

definition subject_ids :: "frame \<Rightarrow> cell list" where
  "subject_ids fr = map (\<lambda>(i, s, cs). s) (rows fr)"

text \<open>
  \<^verbatim>\<open>frame[COLUMN_UNIQ_ID].count()\<close>: the number of entries of the key column that
  are not missing.
\<close>

definition count_ids :: "frame \<Rightarrow> nat" where
  "count_ids fr = length (filter (\<lambda>c. c \<noteq> None) (subject_ids fr))"

text \<open>\<^verbatim>\<open>frame.size\<close>: rows times columns.\<close>

definition frame_size :: "frame \<Rightarrow> nat" where
  "frame_size fr = length (rows fr) * (1 + length (columns fr))"

text \<open>
  \<^verbatim>\<open>pandas.merge(l, r, on=COLUMN_UNIQ_ID)\<close>: the inner join on the key. Every row of
  the left frame is paired with every row of the right frame that has its subject id, in
  the order of the left frame; the result gets fresh labels \<open>0, 1, ...\<close>. A missing key
  matches a missing key.
\<close>

definition join_rows :: "row list \<Rightarrow> row list \<Rightarrow> (cell \<times> cell list) list" where
  "join_rows ls rs =
     concat (map (\<lambda>(i, s, cs). map (\<lambda>(j, t, ds). (s, cs @ ds))
                                   (filter (\<lambda>(j, t, ds). t = s) rs)) ls)"

definition pandas_merge :: "frame \<Rightarrow> frame \<Rightarrow> frame" where
  "pandas_merge l r =
     \<lparr>columns = columns l @ columns r,
      rows = enumerate 0 (join_rows (rows l) (rows r))\<rparr>"

text \<open>\<^verbatim>\<open>frame.sort_index()\<close>: the rows in ascending order of their labels.\<close>

definition sort_index :: "frame \<Rightarrow> frame" where
  "sort_index fr = fr\<lparr>rows := sort_key fst (rows fr)\<rparr>"

definition as_table :: "frame \<Rightarrow> table" where
  "as_table fr =
     \<lparr>tcolumns = COLUMN_UNIQ_ID # columns fr,
      trows = map (\<lambda>(i, s, cs). (i, s # cs)) (rows fr)\<rparr>"

text \<open>\<^verbatim>\<open>frame[section_names]\<close>: the named columns, in the order asked for.\<close>

definition select_columns :: "string list \<Rightarrow> frame \<Rightarrow> table" where
  "select_columns section_names fr =
     \<lparr>tcolumns = section_names,
      trows = map (\<lambda>(i, s, cs).
                (i, List.map_filter (map_of (zip (COLUMN_UNIQ_ID # columns fr) (s # cs)))
                      section_names)) (rows fr)\<rparr>"

subsection \<open>Configuration and state\<close>

text \<open>
  An input section of the configuration. \<open>csv_file = None\<close> is a section object without
  that attribute; \<open>path_to_search = None\<close> is one without that attribute.
\<close>

record data_section =
  csv_file :: "string option"
  path_to_search :: "string option"

text \<open>
  An element of \<^verbatim>\<open>ratios\<close>, by what \<^verbatim>\<open>float()\<close> makes of it: the float it
  returns, or a value on which \<^verbatim>\<open>float()\<close> raises \<^verbatim>\<open>TypeError\<close> or
  \<^verbatim>\<open>ValueError\<close>. A finite float is the rational number it stands for: the ratio
  \<^verbatim>\<open>0.1\<close> is \<open>Fin (3602879701896397 / 2 ^ 55)\<close>, the double nearest to one tenth.
\<close>

datatype pyfloat = Fin rat | PosInf | NegInf | NaN

datatype pyval = Num pyfloat | BadType | BadValue

text \<open>
  The attributes of the object, together with what it reads and writes outside itself:
  the files (absent, or present with a content), the log, and the texts that the csv
  reader in use takes for missing values.
\<close>

record state =
  file_list :: "frame option"
  partition_ids :: "frame2 option"
  data_param :: "(string \<times> data_section) list"
  ratios :: "pyval list option"
  new_partition :: bool
  data_split_file :: string
  files :: "string \<Rightarrow> csv_content option"
  logged :: "(level \<times> message) list"
  na_values :: "string set"

definition logging :: "level \<Rightarrow> message \<Rightarrow> state \<Rightarrow> state" where
  "logging l m st = st\<lparr>logged := logged st @ [(l, m)]\<rparr>"

subsection \<open>Helpers from outside the module\<close>

text \<open>
  Modelled from the spec: \<^verbatim>\<open>look_up_operations\<close> of
  \<^verbatim>\<open>niftynet.utilities.util_common\<close> is not part of the sources at hand. A name that is
  among the supported ones is returned, any other name is an error.
\<close>

definition look_up_operations :: "string \<Rightarrow> string set \<Rightarrow> py_error + string" where
  "look_up_operations type_str supported =
     (if type_str \<in> supported then Inr type_str else Inl ValueError)"

text \<open>
  Modelled from the spec: the same helper applied to the section names of a query, which
  must be a subset of the known columns.
\<close>

definition look_up_section_names :: "string list \<Rightarrow> string set \<Rightarrow> py_error + unit" where
  "look_up_section_names section_names supported =
     (if set section_names \<subseteq> supported then Inr () else Inl ValueError)"

text \<open>
  Modelled from the spec: \<^verbatim>\<open>write_csv\<close> of \<^verbatim>\<open>niftynet.utilities.util_csv\<close> is not
  part of the sources at hand. It persists the rows at the path, replacing what was there;
  every value is written as its text.
\<close>

definition write_file :: "string \<Rightarrow> (string \<times> string) list \<Rightarrow> state \<Rightarrow> state" where
  "write_file path rs st = st\<lparr>files := (files st)(path \<mapsto> Csv rs)\<rparr>"

definition write_csv :: "string \<Rightarrow> (cell \<times> string) list \<Rightarrow> state \<Rightarrow> state" where
  "write_csv path rs st = write_file path (map (\<lambda>(c, v). (cell_text c, v)) rs) st"

text \<open>\<^verbatim>\<open>str.lower\<close> on the ASCII letters.\<close>

definition lower_char :: "char \<Rightarrow> char" where
  "lower_char c =
     (case map_of (zip ''ABCDEFGHIJKLMNOPQRSTUVWXYZ'' ''abcdefghijklmnopqrstuvwxyz'') c of
        None \<Rightarrow> c
      | Some l \<Rightarrow> l)"

definition lower :: "string \<Rightarrow> string" where
  "lower s = map lower_char s"

text \<open>
  \<^verbatim>\<open>random.shuffle\<close>: for \<open>i\<close> from the last position down to 1, the element at \<open>i\<close> is
  exchanged with the one at a random position \<open>j \<le> i\<close>. The random source is the function
  \<open>rnd\<close>, which gives the draw made at position \<open>i\<close>.
\<close>

definition swap :: "nat \<Rightarrow> nat \<Rightarrow> 'a list \<Rightarrow> 'a list" where
  "swap i j xs = xs[i := xs ! j, j := xs ! i]"

definition shuffle :: "(nat \<Rightarrow> nat) \<Rightarrow> 'a list \<Rightarrow> 'a list" where
  "shuffle rnd xs = fold (\<lambda>i ys. swap i (rnd i mod (i + 1)) ys) (rev [1..<length xs]) xs"

subsection \<open>Queries\<close>

definition number_of_subjects :: "state \<Rightarrow> string \<Rightarrow> py_error + nat" where
  "number_of_subjects st phase =
     (case file_list st of
        None \<Rightarrow> Inr 0
      | Some fl \<Rightarrow>
          (case look_up_operations (lower phase) SUPPORTED_PHASES of
             Inl e \<Rightarrow> Inl e
           | Inr ph \<Rightarrow>
               (case partition_ids st of
                  None \<Rightarrow> Inr (count_ids fl)
                | Some p \<Rightarrow>
                    if ph = ALL_PHASE then Inr (count_ids fl)
                    else Inr (length (filter (\<lambda>(i, s, l). l = Some ph \<and> s \<noteq> None) p)))))"

definition get_file_list ::
  "state \<Rightarrow> string \<Rightarrow> string list \<Rightarrow> (py_error + table option) \<times> state" where
  "get_file_list st phase section_names =
     (case file_list st of
        None \<Rightarrow> (Inl RuntimeError, logging FATAL Empty_file_list st)
      | Some fl \<Rightarrow>
          (case (if section_names \<noteq> []
                 then look_up_section_names section_names (set (COLUMN_UNIQ_ID # columns fl))
                 else Inr ()) of
             Inl e \<Rightarrow> (Inl e, st)
           | Inr _ \<Rightarrow>
               if phase = ALL_PHASE then
                 (let fl' = sort_index fl; st' = st\<lparr>file_list := Some fl'\<rparr>
                  in (Inr (Some (if section_names \<noteq> [] then select_columns section_names fl'
                                 else as_table fl')), st'))
               else
                 (case partition_ids st of
                    None \<Rightarrow>
                      (let st1 = logging FATAL No_partition_ids st;
                           st2 = (if new_partition st1
                                  then logging FATAL Unable_to_create_partitions st1
                                  else if files st1 (data_split_file st1) \<noteq> None
                                  then logging FATAL (Unable_to_load (data_split_file st1)) st1
                                  else st1)
                       in (Inl ValueError, st2))
                  | Some p \<Rightarrow>
                      (let selected = filter (\<lambda>(i, s, l). l = Some phase) p
                       in if selected = []
                          then (Inr None, logging WARNING (Empty_subset phase) st)
                          else
                            (let subset = pandas_merge fl
                                   \<lparr>columns = [], rows = map (\<lambda>(i, s, l). (i, s, [])) selected\<rparr>
                             in (Inr (Some (if section_names \<noteq> []
                                            then select_columns section_names subset
                                            else as_table subset)), st))))))"

subsection \<open>Loading and merging the sections\<close>

text \<open>
  The file matcher (\<^verbatim>\<open>KeywordsMatching\<close> and
  \<^verbatim>\<open>match_and_write_filenames_to_csv\<close>) is outside the module: it is the parameter
  \<open>matcher\<close>, which for a section either raises or gives the rows it writes to the
  section's csv file.
\<close>

type_synonym matcher = "data_section \<Rightarrow> py_error + (string \<times> string) list"

text \<open>
  \<^verbatim>\<open>hasattr(section, 'path_to_search') and section.path_to_search\<close>: the section asks
  for a search, which rewrites its csv file.
\<close>

definition searches :: "data_section \<Rightarrow> bool" where
  "searches sec \<longleftrightarrow> path_to_search sec \<noteq> None \<and> path_to_search sec \<noteq> Some []"

definition grep_files_by_data_section ::
  "matcher \<Rightarrow> state \<Rightarrow> string \<Rightarrow> (py_error + frame) \<times> state" where
  "grep_files_by_data_section matcher st modality_name =
     (case map_of (data_param st) modality_name of
        None \<Rightarrow> (Inl ValueError, logging FATAL (Unknown_section modality_name) st)
      | Some sec \<Rightarrow>
          (case csv_file sec of
             None \<Rightarrow> (Inl AttributeError, logging FATAL Missing_csv_file_field st)
           | Some csv \<Rightarrow>
               (case (if searches sec
                      then
                        (let st1 = logging INFO (Search_file_folders modality_name csv) st
                         in case matcher sec of
                              Inl e \<Rightarrow> (Some e, st1)
                            | Inr rs \<Rightarrow> (None, write_file csv rs st1))
                      else (None, logging INFO (Using_existing_csv modality_name csv) st)) of
                  (Some e, st1) \<Rightarrow> (Inl e, st1)
                | (None, st1) \<Rightarrow>
                    (case files st1 csv of
                       None \<Rightarrow> (Inl IOError, logging FATAL (Csv_not_found modality_name csv) st1)
                     | Some content \<Rightarrow>
                         (case read_csv (na_values st1) content
                                 [COLUMN_UNIQ_ID, modality_name] of
                            Inl e \<Rightarrow> (Inl e, logging FATAL (Csv_error e) st1)
                          | Inr t \<Rightarrow> (Inr (named modality_name t), st1))))))"

text \<open>The \<^verbatim>\<open>for section_name in self.data_param\<close> loop of the merger.\<close>

fun load_loop :: "matcher \<Rightarrow> state \<Rightarrow> string list \<Rightarrow> py_error option \<times> state" where
  "load_loop matcher st [] = (None, st)"
| "load_loop matcher st (section_name # rest) =
     (case grep_files_by_data_section matcher st section_name of
        (Inl e, st1) \<Rightarrow> (Some e, st1)
      | (Inr modality_file_list, st1) \<Rightarrow>
          (case file_list st1 of
             None \<Rightarrow> load_loop matcher (st1\<lparr>file_list := Some modality_file_list\<rparr>) rest
           | Some fl \<Rightarrow>
               (let n_rows = count_ids fl;
                    merged = pandas_merge fl modality_file_list;
                    st2 = st1\<lparr>file_list := Some merged\<rparr>;
                    st3 = (if count_ids merged < n_rows
                           then logging WARNING (Rows_not_matched section_name) st2
                           else st2)
                in load_loop matcher st3 rest)))"

definition load_data_sections_by_subject :: "matcher \<Rightarrow> state \<Rightarrow> (py_error + unit) \<times> state" where
  "load_data_sections_by_subject matcher st =
     (if data_param st = [] then (Inl ValueError, logging FATAL Nothing_to_load st)
      else
        (case load_loop matcher (st\<lparr>file_list := None\<rparr>) (map fst (data_param st)) of
           (Some e, st1) \<Rightarrow> (Inl e, st1)
         | (None, st1) \<Rightarrow>
             if (case file_list st1 of None \<Rightarrow> True | Some fl \<Rightarrow> frame_size fl = 0)
             then (Inl IOError, logging FATAL Empty_filename_lists st1)
             else (Inr (), st1)))"

subsection \<open>Splitting the data set\<close>

text \<open>The comparison of floats: every comparison with NaN is false.\<close>

fun float_less :: "pyfloat \<Rightarrow> pyfloat \<Rightarrow> bool" where
  "float_less NaN _ = False"
| "float_less _ NaN = False"
| "float_less (Fin a) (Fin b) = (a < b)"
| "float_less NegInf NegInf = False"
| "float_less NegInf _ = True"
| "float_less _ NegInf = False"
| "float_less PosInf _ = False"
| "float_less _ PosInf = True"

text \<open>
  \<^verbatim>\<open>min(a, b)\<close> and \<^verbatim>\<open>max(a, b)\<close> of Python: the second argument is taken only
  when it is strictly smaller (larger) than the first.
\<close>

definition py_min :: "pyfloat \<Rightarrow> pyfloat \<Rightarrow> pyfloat" where
  "py_min a b = (if float_less b a then b else a)"

definition py_max :: "pyfloat \<Rightarrow> pyfloat \<Rightarrow> pyfloat" where
  "py_max a b = (if float_less a b then b else a)"

definition clamp :: "pyfloat \<Rightarrow> pyfloat" where
  "clamp x = py_max (py_min (Fin 1) x) (Fin 0)"

definition to_float :: "pyval \<Rightarrow> py_error + pyfloat" where
  "to_float v = (case v of Num x \<Rightarrow> Inr x | BadType \<Rightarrow> Inl TypeError | BadValue \<Rightarrow> Inl ValueError)"

text \<open>
  The \<^verbatim>\<open>try\<close> block: unpacking \<^verbatim>\<open>self.ratios\<close> into exactly two values, then
  converting and clamping the first and the second.
\<close>

definition unpack_ratios :: "pyval list option \<Rightarrow> py_error + pyfloat \<times> pyfloat" where
  "unpack_ratios r =
     (case r of
        None \<Rightarrow> Inl TypeError
      | Some [valid_fraction, infer_fraction] \<Rightarrow>
          (case to_float valid_fraction of
             Inl e \<Rightarrow> Inl e
           | Inr v \<Rightarrow>
               (case to_float infer_fraction of
                  Inl e \<Rightarrow> Inl e
                | Inr i \<Rightarrow> Inr (clamp v, clamp i)))
      | Some _ \<Rightarrow> Inl ValueError)"

text \<open>
  The arithmetic of doubles. \<open>round_double\<close> is the rounding of a real number to the
  nearest double, ties to the even significand: a double has 53 significant bits, and
  below \<open>2 ^ - 1022\<close> its last bit stays at \<open>2 ^ - 1074\<close>. Overflow is left out: the
  function is applied to a number of rows, which pandas counts in 64 bits, and to the
  product of such a number with a fraction between 0 and 1.
\<close>

fun floor_log2 :: "nat \<Rightarrow> nat" where
  "floor_log2 n = (if n < 2 then 0 else Suc (floor_log2 (n div 2)))"

definition pow2 :: "int \<Rightarrow> rat" where
  "pow2 e = (if 0 \<le> e then 2 ^ nat e else 1 / 2 ^ nat (- e))"

text \<open>For \<open>q > 0\<close>, the \<open>e\<close> with \<open>2 ^ e \<le> q < 2 ^ (e + 1)\<close>.\<close>

definition exponent :: "rat \<Rightarrow> int" where
  "exponent q =
     (if 1 \<le> q then int (floor_log2 (nat \<lfloor>q\<rfloor>))
      else - int (Suc (floor_log2 (nat (\<lceil>1 / q\<rceil> - 1)))))"

definition round_half_even :: "rat \<Rightarrow> int" where
  "round_half_even m =
     (let f = \<lfloor>m\<rfloor>; r = m - of_int f
      in if r < 1 / 2 then f else if 1 / 2 < r then f + 1 else if even f then f else f + 1)"

definition round_double :: "rat \<Rightarrow> rat" where
  "round_double q =
     (if q = 0 then 0
      else (let a = \<bar>q\<bar>; ulp = pow2 (max (exponent a - 52) (- 1074))
            in sgn q * of_int (round_half_even (a / ulp)) * ulp))"

text \<open>
  \<^verbatim>\<open>int(math.ceil(n_total * fraction))\<close>: the number of rows is converted to a double,
  the product is rounded to a double, and then the ceiling is taken; the ceiling of an
  infinity or a NaN raises.
\<close>

definition float_times :: "nat \<Rightarrow> rat \<Rightarrow> rat" where
  "float_times n q = round_double (round_double (of_nat n) * q)"

definition ceil_times :: "nat \<Rightarrow> pyfloat \<Rightarrow> py_error + int" where
  "ceil_times n_total fraction =
     (case fraction of
        Fin q \<Rightarrow> Inr \<lceil>float_times n_total q\<rceil>
      | NaN \<Rightarrow> Inl ValueError
      | _ \<Rightarrow> if n_total = 0 then Inl ValueError else Inl OverflowError)"

text \<open>
  The label list before it is shuffled. A list times a negative number is empty, which
  is the conversion \<open>nat\<close>.
\<close>

definition build_phases :: "nat \<Rightarrow> int \<Rightarrow> int \<Rightarrow> string list" where
  "build_phases n_total n_valid n_infer =
     (let n_train = int n_total - n_infer - n_valid;
          phases = replicate (nat n_train) TRAIN @ replicate (nat n_valid) VALID
                   @ replicate (nat n_infer) INFER
      in if length phases > n_total then take n_total phases else phases)"

definition randomly_split_dataset ::
  "(nat \<Rightarrow> nat) \<Rightarrow> state \<Rightarrow> bool \<Rightarrow> (py_error + unit) \<times> state" where
  "randomly_split_dataset rnd st overwrite =
     (case (if overwrite then
              (case unpack_ratios (ratios st) of
                 Inl e \<Rightarrow> (Some e, logging FATAL Unknown_fraction_format st)
               | Inr (valid_fraction, infer_fraction) \<Rightarrow>
                   (case number_of_subjects st ALL_PHASE of
                      Inl e \<Rightarrow> (Some e, st)
                    | Inr n_total \<Rightarrow>
                        (case ceil_times n_total valid_fraction of
                           Inl e \<Rightarrow> (Some e, st)
                         | Inr n_valid \<Rightarrow>
                             (case ceil_times n_total infer_fraction of
                                Inl e \<Rightarrow> (Some e, st)
                              | Inr n_infer \<Rightarrow>
                                  (let phases = shuffle rnd (build_phases n_total n_valid n_infer)
                                   in case file_list st of
                                        None \<Rightarrow> (Some TypeError, st)
                                      | Some fl \<Rightarrow>
                                          (None, write_csv (data_split_file st)
                                                   (zip (subject_ids fl) phases) st))))))
            else (None, if ratios st \<noteq> None \<and> ratios st \<noteq> Some []
                        then logging WARNING Ignoring_ratios st else st)) of
        (Some e, st1) \<Rightarrow> (Inl e, st1)
      | (None, st1) \<Rightarrow>
          (case files st1 (data_split_file st1) of
             None \<Rightarrow> (Inr (), st1)
           | Some content \<Rightarrow>
               (case read_csv (na_values st1) content [COLUMN_UNIQ_ID, COLUMN_PHASE] of
                  Inl e \<Rightarrow> (Inr (), logging WARNING (Csv_error e) st1)
                | Inr t \<Rightarrow> (Inr (), st1\<lparr>partition_ids := Some t\<rparr>))))"

subsection \<open>Initialisation\<close>

definition initialise ::
  "matcher \<Rightarrow> (nat \<Rightarrow> nat) \<Rightarrow> state \<Rightarrow> (string \<times> data_section) list \<Rightarrow> bool \<Rightarrow> string
     \<Rightarrow> pyval list option \<Rightarrow> (py_error + unit) \<times> state" where
  "initialise matcher rnd st dp np split_file r =
     (let st0 = st\<lparr>data_param := dp, data_split_file := split_file, ratios := r,
                   file_list := None, partition_ids := None\<rparr>
      in case load_data_sections_by_subject matcher st0 of
           (Inl e, st1) \<Rightarrow> (Inl e, st1)
         | (Inr _, st1) \<Rightarrow>
             (case randomly_split_dataset rnd (st1\<lparr>new_partition := np\<rparr>) np of
                (Inl e, st2) \<Rightarrow> (Inl e, st2)
              | (Inr _, st2) \<Rightarrow> (Inr (), logging INFO Summary st2)))"

subsection \<open>Notions of the statements\<close>

text \<open>The attributes of the object that loading the sections does not touch.\<close>

definition same_settings :: "state \<Rightarrow> state \<Rightarrow> bool" where
  "same_settings st st' \<longleftrightarrow>
     partition_ids st' = partition_ids st \<and> data_param st' = data_param st \<and>
     ratios st' = ratios st \<and> new_partition st' = new_partition st \<and>
     data_split_file st' = data_split_file st \<and> na_values st' = na_values st"

text \<open>No section that asks for a search has its csv file at the path.\<close>

definition not_rewritten :: "(string \<times> data_section) list \<Rightarrow> string \<Rightarrow> bool" where
  "not_rewritten dp path \<longleftrightarrow>
     (\<forall>(name, sec) \<in> set dp. searches sec \<longrightarrow> csv_file sec \<noteq> Some path)"

text \<open>
  What the loop over the sections \<open>ns\<close> leaves written at a path, when it runs to its
  end: the rows of the last section in \<open>ns\<close> that searches, has its csv file at the path
  and whose search succeeds.
\<close>

fun written ::
  "matcher \<Rightarrow> (string \<times> data_section) list \<Rightarrow> string list \<Rightarrow> string
     \<Rightarrow> (string \<times> string) list option" where
  "written m dp [] path = None"
| "written m dp (n # ns) path =
     (case written m dp ns path of
        Some rs \<Rightarrow> Some rs
      | None \<Rightarrow>
          (case map_of dp n of
             None \<Rightarrow> None
           | Some sec \<Rightarrow>
               if searches sec \<and> csv_file sec = Some path
               then (case m sec of Inl e \<Rightarrow> None | Inr rs \<Rightarrow> Some rs)
               else None))"

text \<open>Two states that hold the same sections, the same files and the same reader.\<close>

definition same_inputs :: "state \<Rightarrow> state \<Rightarrow> bool" where
  "same_inputs a b \<longleftrightarrow>
     data_param a = data_param b \<and> files a = files b \<and> na_values a = na_values b"

text \<open>The warnings of the log, in the order they were made.\<close>

definition warnings :: "state \<Rightarrow> message list" where
  "warnings st = map snd (filter (\<lambda>(l, m). l = WARNING) (logged st))"

text \<open>
  The tables that the loader returns for the sections \<open>ns\<close>, one after the other, each
  with the name of its section; \<open>None\<close> when the loader raises for one of them.
\<close>

fun section_tables :: "matcher \<Rightarrow> state \<Rightarrow> string list \<Rightarrow> (string \<times> frame) list option" where
  "section_tables m st [] = Some []"
| "section_tables m st (n # ns) =
     (case grep_files_by_data_section m st n of
        (Inl e, st1) \<Rightarrow> None
      | (Inr t, st1) \<Rightarrow> map_option ((#) (n, t)) (section_tables m st1 ns))"

text \<open>
  The merger in the words of the specification: starting from a running table, each
  further table is joined to it on the subject id, and the section is named in a warning
  when the join leaves fewer subject ids than the running table had. The result is the
  final table and the sections warned about, in order.
\<close>

fun join_all :: "frame \<Rightarrow> (string \<times> frame) list \<Rightarrow> frame \<times> string list" where
  "join_all running [] = (running, [])"
| "join_all running ((name, t) # rest) =
     (let joined = pandas_merge running t;
          (final, warned) = join_all joined rest
      in (final, (if count_ids joined < count_ids running then [name] else []) @ warned))"

subsection \<open>Example configurations\<close>

definition no_files :: "string \<Rightarrow> csv_content option" where
  "no_files = Map.empty"

definition zero_draws :: "nat \<Rightarrow> nat" where
  "zero_draws i = 0"

definition no_matcher :: matcher where
  "no_matcher sec = Inl IOError"

definition three_subjects :: frame where
  "three_subjects =
     \<lparr>columns = [''T1''],
      rows = [(0, Some ''s3'', [Some ''c.nii'']), (1, Some ''s1'', [Some ''a.nii'']),
              (2, Some ''s2'', [Some ''b.nii''])]\<rparr>"

definition fresh :: state where
  "fresh = \<lparr>file_list = None, partition_ids = None, data_param = [], ratios = None,
             new_partition = False, data_split_file = ''split.csv'', files = no_files,
             logged = [], na_values = pandas_na_values\<rparr>"

definition loaded :: state where
  "loaded = fresh\<lparr>file_list := Some three_subjects\<rparr>"

text \<open>Half of the subjects for validation and all of them for inference.\<close>

definition crowded :: state where
  "crowded = loaded\<lparr>ratios := Some [Num (Fin (1 / 2)), Num (Fin 1)]\<rparr>"

text \<open>The double \<^verbatim>\<open>0.1\<close>, and a table of eleven rows, one of them without a subject id.\<close>

definition tenth :: rat where
  "tenth = 3602879701896397 / 36028797018963968"

definition eleven_rows :: frame where
  "eleven_rows =
     \<lparr>columns = [''T1''],
      rows = [(0, Some ''s00'', [Some ''00.nii'']), (1, Some ''s01'', [Some ''01.nii'']),
              (2, Some ''s02'', [Some ''02.nii'']), (3, None, [Some ''xx.nii'']),
              (4, Some ''s03'', [Some ''03.nii'']), (5, Some ''s04'', [Some ''04.nii'']),
              (6, Some ''s05'', [Some ''05.nii'']), (7, Some ''s06'', [Some ''06.nii'']),
              (8, Some ''s07'', [Some ''07.nii'']), (9, Some ''s08'', [Some ''08.nii'']),
              (10, Some ''s09'', [Some ''09.nii''])]\<rparr>"

definition ten_subjects :: state where
  "ten_subjects = fresh\<lparr>file_list := Some eleven_rows,
                        ratios := Some [Num (Fin tenth), Num (Fin 0)]\<rparr>"

definition one_section :: "(string \<times> data_section) list" where
  "one_section = [(''T1'', \<lparr>csv_file = Some ''t1.csv'', path_to_search = None\<rparr>)]"

definition on_disk :: state where
  "on_disk = fresh\<lparr>files :=
     no_files(''t1.csv'' \<mapsto> Csv [(''s3'', ''c.nii''), (''s1'', ''a.nii''), (''s2'', ''b.nii'')])\<rparr>"

definition partitioned :: state where
  "partitioned = loaded\<lparr>partition_ids :=
     Some [(0, Some ''s3'', Some ''train''), (1, Some ''s1'', Some ''validation''),
           (2, Some ''s2'', Some ''train'')]\<rparr>"

definition corrupt_split :: state where
  "corrupt_split = loaded\<lparr>files := no_files(''split.csv'' \<mapsto> Unparsable)\<rparr>"

definition two_sections :: "(string \<times> data_section) list" where
  "two_sections = [(''T1'', \<lparr>csv_file = Some ''t1.csv'', path_to_search = None\<rparr>),
                   (''T2'', \<lparr>csv_file = Some ''t2.csv'', path_to_search = None\<rparr>)]"

definition repeated_ids :: state where
  "repeated_ids = fresh\<lparr>data_param := two_sections, files :=
     no_files(''t1.csv'' \<mapsto> Csv [(''s1'', ''a.nii''), (''s1'', ''a2.nii'')],
              ''t2.csv'' \<mapsto> Csv [(''s1'', ''b.nii'')])\<rparr>"

definition unmatched :: state where
  "unmatched = fresh\<lparr>data_param := two_sections, files :=
     no_files(''t1.csv'' \<mapsto> Csv [(''s1'', ''a1''), (''s2'', ''a2''), (''s3'', ''a3'')],
              ''t2.csv'' \<mapsto> Csv [(''s2'', ''b2''), (''s3'', ''b3''), (''s4'', ''b4'')],
              ''split.csv'' \<mapsto> Csv [(''s2'', ''train''), (''s9'', ''inference'')])\<rparr>"

definition disjoint_ids :: state where
  "disjoint_ids = fresh\<lparr>data_param := two_sections, files :=
     no_files(''t1.csv'' \<mapsto> Csv [(''s1'', ''a1''), (''s2'', ''a2'')],
              ''t2.csv'' \<mapsto> Csv [(''s3'', ''b3'')])\<rparr>"

definition t1_table :: frame where
  "t1_table = \<lparr>columns = [''T1''],
                rows = [(0, Some ''s1'', [Some ''a1'']), (1, Some ''s2'', [Some ''a2'']),
                        (2, Some ''s3'', [Some ''a3''])]\<rparr>"

definition t2_table :: frame where
  "t2_table = \<lparr>columns = [''T2''],
                rows = [(0, Some ''s2'', [Some ''b2'']), (1, Some ''s3'', [Some ''b3'']),
                        (2, Some ''s4'', [Some ''b4''])]\<rparr>"

definition three_sections :: "(string \<times> data_section) list" where
  "three_sections = [(''T1'', \<lparr>csv_file = Some ''t1.csv'', path_to_search = None\<rparr>),
                     (''T2'', \<lparr>csv_file = Some ''t2.csv'', path_to_search = None\<rparr>),
                     (''T3'', \<lparr>csv_file = Some ''t3.csv'', path_to_search = None\<rparr>)]"

definition three_lists :: state where
  "three_lists = fresh\<lparr>data_param := three_sections, files :=
     no_files(''t1.csv'' \<mapsto> Csv [(''s1'', ''a1''), (''s2'', ''a2''), ([], ''a0''), (''s3'', ''a3'')],
              ''t2.csv'' \<mapsto> Csv [(''s2'', ''b2''), (''s3'', ''b3''), (''s4'', ''b4'')],
              ''t3.csv'' \<mapsto> Csv [(''s3'', ''c3''), (''s5'', ''c5'')])\<rparr>"
section \<open>Properties\<close>

subsection \<open>The label list of a new split\<close>

lemma labels_distinct:
  "TRAIN \<noteq> VALID" "TRAIN \<noteq> INFER" "VALID \<noteq> INFER"
  "VALID \<noteq> TRAIN" "INFER \<noteq> TRAIN" "INFER \<noteq> VALID"
  by (simp_all add: TRAIN_def VALID_def INFER_def)

lemma length_swap: "length (swap i j xs) = length xs"
  by (simp add: swap_def)

lemma mset_swap_model: "i < length xs \<Longrightarrow> j < length xs \<Longrightarrow> mset (swap i j xs) = mset xs"
  unfolding swap_def by (rule mset_swap)

lemma fold_swap_perm:
  "\<forall>i \<in> set is. i < length xs \<and> f i < length xs \<Longrightarrow>
     mset (fold (\<lambda>i ys. swap i (f i) ys) is xs) = mset xs \<and>
     length (fold (\<lambda>i ys. swap i (f i) ys) is xs) = length xs"
proof (induction "is" arbitrary: xs)
  case Nil
  then show ?case by simp
next
  case (Cons i "is")
  have step: "mset (swap i (f i) xs) = mset xs" "length (swap i (f i) xs) = length xs"
    using Cons.prems by (simp_all add: mset_swap_model length_swap)
  have "\<forall>k \<in> set is. k < length (swap i (f i) xs) \<and> f k < length (swap i (f i) xs)"
    using Cons.prems by (simp add: length_swap)
  from Cons.IH [OF this] step show ?case by simp
qed

lemma mset_shuffle: "mset (shuffle rnd xs) = mset xs"
proof -
  have "\<forall>i \<in> set (rev [1..<length xs]). i < length xs \<and> rnd i mod (i + 1) < length xs"
  proof
    fix i assume "i \<in> set (rev [1..<length xs])"
    then have i: "i < length xs" by simp
    have "rnd i mod (i + 1) < i + 1" by simp
    with i show "i < length xs \<and> rnd i mod (i + 1) < length xs" by linarith
  qed
  from fold_swap_perm [OF this] show ?thesis by (simp add: shuffle_def)
qed

lemma length_shuffle: "length (shuffle rnd xs) = length xs"
  using mset_shuffle [of rnd xs] by (metis size_mset)

lemma set_shuffle: "set (shuffle rnd xs) = set xs"
  using mset_shuffle [of rnd xs] by (metis set_mset_mset)

lemma count_list_shuffle: "count_list (shuffle rnd xs) x = count_list xs x"
  using mset_shuffle [of rnd xs] by (metis count_mset)

lemma clamp_range: "\<exists>q. clamp x = Fin q \<and> 0 \<le> q \<and> q \<le> 1"
  by (cases x) (auto simp: clamp_def py_min_def py_max_def)

lemma count_list_replicate: "count_list (replicate n x) y = (if x = y then n else 0)"
  by (induction n) auto

lemma build_phases_exact:
  assumes "int n_total - n_infer - n_valid \<ge> 0" "0 \<le> n_valid" "0 \<le> n_infer"
  shows "build_phases n_total n_valid n_infer =
           replicate (nat (int n_total - n_infer - n_valid)) TRAIN
           @ replicate (nat n_valid) VALID @ replicate (nat n_infer) INFER"
  using assms by (simp add: build_phases_def Let_def)

lemma build_phases_over:
  assumes "int n_total - n_infer - n_valid < 0" "0 \<le> n_valid" "0 \<le> n_infer"
  shows "build_phases n_total n_valid n_infer =
           replicate (min n_total (nat n_valid)) VALID
           @ replicate (n_total - nat n_valid) INFER"
proof -
  have "nat n_valid + nat n_infer > n_total" using assms by linarith
  then show ?thesis using assms
    by (simp add: build_phases_def Let_def min_def) linarith
qed

lemma length_build_phases:
  assumes "0 \<le> n_valid" "0 \<le> n_infer"
  shows "length (build_phases n_total n_valid n_infer) = n_total"
proof (cases "int n_total - n_infer - n_valid < 0")
  case True
  then have "nat n_valid + nat n_infer > n_total" using assms by linarith
  with build_phases_over [OF True assms] show ?thesis by (simp add: min_def)
next
  case False
  then have "0 \<le> int n_total - n_infer - n_valid" by simp
  from build_phases_exact [OF this assms] this assms show ?thesis by simp
qed

lemma count_build_phases:
  assumes "0 \<le> n_valid" "0 \<le> n_infer"
  shows "count_list (build_phases n_total n_valid n_infer) TRAIN
           = nat (int n_total - n_infer - n_valid)"
    and "count_list (build_phases n_total n_valid n_infer) VALID = min n_total (nat n_valid)"
    and "count_list (build_phases n_total n_valid n_infer) INFER
           = n_total - nat (int n_total - n_infer - n_valid) - min n_total (nat n_valid)"
    and "set (build_phases n_total n_valid n_infer) \<subseteq> {TRAIN, VALID, INFER}"
proof -
  show "count_list (build_phases n_total n_valid n_infer) TRAIN
           = nat (int n_total - n_infer - n_valid)"
  proof (cases "int n_total - n_infer - n_valid < 0")
    case True
    from build_phases_over [OF True assms] True show ?thesis
      by (simp add: count_list_replicate labels_distinct)
  next
    case False
    then have "0 \<le> int n_total - n_infer - n_valid" by simp
    from build_phases_exact [OF this assms] show ?thesis
      by (simp add: count_list_replicate labels_distinct)
  qed
  show "count_list (build_phases n_total n_valid n_infer) VALID = min n_total (nat n_valid)"
  proof (cases "int n_total - n_infer - n_valid < 0")
    case True
    from build_phases_over [OF True assms] True show ?thesis
      by (simp add: count_list_replicate labels_distinct)
  next
    case False
    then have nn: "0 \<le> int n_total - n_infer - n_valid" by simp
    then have "nat n_valid \<le> n_total" using assms by linarith
    with build_phases_exact [OF nn assms] show ?thesis
      by (simp add: count_list_replicate labels_distinct min_def)
  qed
  show "count_list (build_phases n_total n_valid n_infer) INFER
           = n_total - nat (int n_total - n_infer - n_valid) - min n_total (nat n_valid)"
  proof (cases "int n_total - n_infer - n_valid < 0")
    case True
    from build_phases_over [OF True assms] True show ?thesis
      by (simp add: count_list_replicate labels_distinct min_def)
  next
    case False
    then have nn: "0 \<le> int n_total - n_infer - n_valid" by simp
    then have "nat n_valid \<le> n_total" using assms by linarith
    with build_phases_exact [OF nn assms] nn assms show ?thesis
      by (simp add: count_list_replicate labels_distinct min_def) linarith
  qed
  show "set (build_phases n_total n_valid n_infer) \<subseteq> {TRAIN, VALID, INFER}"
    by (auto simp: build_phases_def Let_def dest!: in_set_takeD)
qed


lemma lower_all: "lower ALL_PHASE = ALL_PHASE"
  by (simp add: lower_def lower_char_def ALL_PHASE_def)

lemma number_of_subjects_all:
  "file_list st = Some fl \<Longrightarrow> number_of_subjects st ALL_PHASE = Inr (count_ids fl)"
  by (simp add: number_of_subjects_def lower_all look_up_operations_def SUPPORTED_PHASES_def
      split: option.splits)


subsection \<open>Rounding to a double\<close>

lemma pow2_pos: "0 < pow2 e"
  by (simp add: pow2_def)

lemma round_half_even_nonneg: "0 \<le> m \<Longrightarrow> 0 \<le> round_half_even m"
  by (simp add: round_half_even_def Let_def)

lemma round_half_even_int: "round_half_even (of_int z) = z"
  by (simp add: round_half_even_def Let_def)

lemma round_half_even_down:
  assumes "of_int z \<le> m" and "m < of_int z + 1 / 2"
  shows "round_half_even m = z"
proof -
  have "\<lfloor>m\<rfloor> = z" using assms by (intro floor_unique) auto
  with assms show ?thesis by (simp add: round_half_even_def Let_def)
qed

lemma round_half_even_up:
  assumes "of_int z - 1 / 2 < m" and "m < of_int z"
  shows "round_half_even m = z"
proof -
  have "\<lfloor>m\<rfloor> = z - 1" using assms by (intro floor_unique) auto
  with assms show ?thesis by (simp add: round_half_even_def Let_def)
qed

lemma round_double_nonneg: "0 \<le> q \<Longrightarrow> 0 \<le> round_double q"
proof (cases "q = 0")
  case True
  then show ?thesis by (simp add: round_double_def)
next
  case False
  assume "0 \<le> q"
  with False have q: "0 < q" by simp
  define ulp where "ulp = pow2 (max (exponent q - 52) (- 1074))"
  have ulp: "0 < ulp" by (simp add: ulp_def pow2_pos)
  with q have "0 \<le> q / ulp" by simp
  then have "0 \<le> round_half_even (q / ulp)" by (rule round_half_even_nonneg)
  with ulp have "0 \<le> rat_of_int (round_half_even (q / ulp)) * ulp" by simp
  with q show ?thesis
    by (simp add: round_double_def Let_def ulp_def)
qed

lemma float_times_nonneg: "0 \<le> q \<Longrightarrow> 0 \<le> float_times n q"
proof -
  assume "0 \<le> q"
  have "0 \<le> round_double (of_nat n)" by (rule round_double_nonneg) simp
  with \<open>0 \<le> q\<close> have "0 \<le> round_double (of_nat n) * q" by simp
  then show ?thesis unfolding float_times_def by (rule round_double_nonneg)
qed

lemma round_double_eval:
  assumes "0 < q" and "exponent q = e"
    and "round_half_even (q / pow2 (max (e - 52) (- 1074))) = z"
  shows "round_double q = of_int z * pow2 (max (e - 52) (- 1074))"
  using assms by (simp add: round_double_def Let_def)

lemma exponent_ge_1: "1 \<le> q \<Longrightarrow> \<lfloor>q\<rfloor> = z \<Longrightarrow> exponent q = int (floor_log2 (nat z))"
  by (simp add: exponent_def)

lemma floor_log2_values:
  "floor_log2 1 = 0" "floor_log2 2 = 1" "floor_log2 3 = 1" "floor_log2 10 = 3"
  by code_simp+

lemma round_double_10: "round_double 10 = 10"
proof -
  have e: "exponent 10 = 3"
    using exponent_ge_1 [of 10 10] by (simp add: floor_log2_values)
  have "round_half_even (10 / pow2 (max (3 - 52) (- 1074))) = 5629499534213120"
    using round_half_even_int [of 5629499534213120] by (simp add: pow2_def)
  from round_double_eval [OF _ e this] show ?thesis by (simp add: pow2_def)
qed

lemma float_times_10_tenth: "float_times 10 tenth = 1"
proof -
  define p :: rat where "p = 18014398509481985 / 18014398509481984"
  have p: "10 * tenth = p" by (simp add: tenth_def p_def)
  have "\<lfloor>p\<rfloor> = 1" unfolding p_def by (rule floor_unique) simp_all
  then have e: "exponent p = 0"
    using exponent_ge_1 [of p 1] by (simp add: floor_log2_values p_def)
  have "round_half_even (p / pow2 (max (0 - 52) (- 1074))) = 4503599627370496"
    by (rule round_half_even_down) (simp_all add: pow2_def p_def)
  from round_double_eval [OF _ e this] have "round_double p = 1"
    by (simp add: pow2_def p_def)
  then show ?thesis by (simp add: float_times_def round_double_10 p)
qed

lemma exact_times_10_tenth: "\<lceil>10 * tenth\<rceil> = 2"
  unfolding tenth_def by (rule ceiling_unique) simp_all


lemma round_double_3: "round_double 3 = 3"
proof -
  have e: "exponent 3 = 1"
    using exponent_ge_1 [of 3 3] by (simp add: floor_log2_values)
  have "round_half_even (3 / pow2 (max (1 - 52) (- 1074))) = 6755399441055744"
    using round_half_even_int [of 6755399441055744] by (simp add: pow2_def)
  from round_double_eval [OF _ e this] show ?thesis by (simp add: pow2_def)
qed

lemma round_double_3_halves: "round_double (3 / 2) = 3 / 2"
proof -
  have "\<lfloor>3 / 2 :: rat\<rfloor> = 1" by (rule floor_unique) simp_all
  then have e: "exponent (3 / 2) = 0"
    using exponent_ge_1 [of "3 / 2" 1] by (simp add: floor_log2_values)
  have "round_half_even ((3 / 2) / pow2 (max (0 - 52) (- 1074))) = 6755399441055744"
    using round_half_even_int [of 6755399441055744] by (simp add: pow2_def)
  from round_double_eval [OF _ e this] show ?thesis by (simp add: pow2_def)
qed

lemma float_times_0: "float_times n 0 = 0"
  by (simp add: float_times_def round_double_def)

subsection \<open>What a new split writes\<close>

lemma count_ids_le: "count_ids fl \<le> length (subject_ids fl)"
  by (simp add: count_ids_def)

lemma labels_of_rows:
  "length phases \<le> length ids \<Longrightarrow>
     map snd (map (\<lambda>(c, l). (cell_text c, l)) (zip ids phases)) = phases"
  by (simp add: map_snd_zip_take case_prod_unfold comp_def)

lemma ceil_times_fin: "ceil_times n (Fin q) = Inr \<lceil>float_times n q\<rceil>"
  by (simp add: ceil_times_def)

lemma split_overwrite:
  assumes "file_list st = Some fl" and "ratios st = Some [Num v, Num i]"
    and "clamp v = Fin qv" and "clamp i = Fin qi"
  shows "randomly_split_dataset rnd st True =
     (let n = count_ids fl;
          rs = map (\<lambda>(c, l). (cell_text c, l))
                 (zip (subject_ids fl)
                    (shuffle rnd (build_phases n \<lceil>float_times n qv\<rceil> \<lceil>float_times n qi\<rceil>)))
      in (Inr (), st\<lparr>files := (files st)(data_split_file st \<mapsto> Csv rs),
                      partition_ids := Some (read_rows (na_values st) rs)\<rparr>))"
  using assms
  by (simp add: randomly_split_dataset_def unpack_ratios_def to_float_def
      number_of_subjects_all ceil_times_fin write_csv_def write_file_def read_csv_def Let_def
      COLUMN_UNIQ_ID_def COLUMN_PHASE_def)


lemma ceilings_nonneg:
  assumes "clamp v = Fin qv"
  shows "0 \<le> qv" and "qv \<le> 1" and "0 \<le> \<lceil>float_times n qv\<rceil>"
proof -
  from clamp_range [of v] assms show q: "0 \<le> qv" and "qv \<le> 1" by auto
  from float_times_nonneg [OF q, of n] show "0 \<le> \<lceil>float_times n qv\<rceil>"
    by (simp add: zero_le_ceiling)
qed

text \<open>
  C1: for every table of fewer than \<open>2 ^ 63\<close> subjects and every pair of ratios, whatever
  floats they are, \<^verbatim>\<open>randomly_split_dataset\<close> with \<^verbatim>\<open>overwrite=True\<close> clamps the
  fractions into \<open>[0, 1]\<close>, takes for \<open>n_valid\<close> and \<open>n_infer\<close> the ceilings of the double
  products of the number of subjects and the clamped fractions, and writes (and reads
  back) rows whose labels are a list of exactly \<open>n_total\<close> elements. Each label is one of
  the three phases, the number of train labels is \<open>n_total - n_valid - n_infer\<close> or 0
  when that is negative, the number of validation labels is \<open>n_valid\<close> cut at \<open>n_total\<close>,
  and the three numbers add up to \<open>n_total\<close>. The number of subjects is the number of
  rows whose subject id is not missing.
\<close>

theorem split_labels_total:
  assumes "file_list st = Some fl" and "ratios st = Some [Num v, Num i]"
    and "clamp v = Fin qv" and "clamp i = Fin qi" and "count_ids fl < 2 ^ 63"
  shows "let n_total = count_ids fl;
             n_valid = \<lceil>float_times n_total qv\<rceil>;
             n_infer = \<lceil>float_times n_total qi\<rceil>;
             phases = shuffle rnd (build_phases n_total n_valid n_infer);
             persisted = map (\<lambda>(c, l). (cell_text c, l)) (zip (subject_ids fl) phases);
             st' = snd (randomly_split_dataset rnd st True)
         in 0 \<le> qv \<and> qv \<le> 1 \<and> 0 \<le> qi \<and> qi \<le> 1 \<and>
            fst (randomly_split_dataset rnd st True) = Inr () \<and>
            files st' (data_split_file st) = Some (Csv persisted) \<and>
            map snd persisted = phases \<and>
            partition_ids st' = Some (read_rows (na_values st) persisted) \<and>
            length phases = n_total \<and>
            set phases \<subseteq> {TRAIN, VALID, INFER} \<and>
            int (count_list phases TRAIN) = max 0 (int n_total - n_valid - n_infer) \<and>
            count_list phases VALID = min n_total (nat n_valid) \<and>
            count_list phases TRAIN + count_list phases VALID + count_list phases INFER
              = n_total"
proof -
  define n where "n = count_ids fl"
  define nv where "nv = \<lceil>float_times n qv\<rceil>"
  define ni where "ni = \<lceil>float_times n qi\<rceil>"
  define phases where "phases = shuffle rnd (build_phases n nv ni)"
  define persisted where
    "persisted = map (\<lambda>(c, l). (cell_text c, l)) (zip (subject_ids fl) phases)"
  note qv = ceilings_nonneg(1,2) [OF assms(3)]
  note qi = ceilings_nonneg(1,2) [OF assms(4)]
  have nv0: "0 \<le> nv" unfolding nv_def by (rule ceilings_nonneg(3) [OF assms(3)])
  have ni0: "0 \<le> ni" unfolding ni_def by (rule ceilings_nonneg(3) [OF assms(4)])
  have res: "randomly_split_dataset rnd st True =
       (Inr (), st\<lparr>files := (files st)(data_split_file st \<mapsto> Csv persisted),
                     partition_ids := Some (read_rows (na_values st) persisted)\<rparr>)"
    using split_overwrite [OF assms(1-4), of rnd]
    by (simp add: Let_def n_def nv_def ni_def phases_def persisted_def)
  have len: "length phases = n"
    by (simp add: phases_def length_shuffle length_build_phases [OF nv0 ni0])
  then have "length phases \<le> length (subject_ids fl)"
    using count_ids_le [of fl] by (simp add: n_def)
  then have lab: "map snd persisted = phases"
    unfolding persisted_def by (rule labels_of_rows)
  have sub: "set phases \<subseteq> {TRAIN, VALID, INFER}"
    using count_build_phases(4) [OF nv0 ni0] by (simp add: phases_def set_shuffle)
  have ct: "count_list phases TRAIN = nat (int n - ni - nv)"
    by (simp add: phases_def count_list_shuffle count_build_phases(1) [OF nv0 ni0])
  have cv: "count_list phases VALID = min n (nat nv)"
    by (simp add: phases_def count_list_shuffle count_build_phases(2) [OF nv0 ni0])
  have ci: "count_list phases INFER = n - nat (int n - ni - nv) - min n (nat nv)"
    by (simp add: phases_def count_list_shuffle count_build_phases(3) [OF nv0 ni0])
  have ct': "int (count_list phases TRAIN) = max 0 (int n - nv - ni)"
    unfolding ct by linarith
  have total: "count_list phases TRAIN + count_list phases VALID + count_list phases INFER = n"
    unfolding ct cv ci using nv0 ni0 by linarith
  show ?thesis
    unfolding Let_def n_def [symmetric] nv_def [symmetric] ni_def [symmetric]
      phases_def [symmetric] persisted_def [symmetric]
    using qv qi res len lab sub ct' cv total by simp
qed

theorem split_labels_total_witness:
  "file_list ten_subjects = Some eleven_rows
   \<and> ratios ten_subjects = Some [Num (Fin tenth), Num (Fin 0)]
   \<and> clamp (Fin tenth) = Fin tenth \<and> clamp (Fin 0) = Fin 0
   \<and> length (rows eleven_rows) = 11 \<and> count_ids eleven_rows = 10
   \<and> \<lceil>float_times 10 tenth\<rceil> = 1 \<and> \<lceil>10 * tenth\<rceil> = 2 \<and> \<lceil>float_times 10 0\<rceil> = 0
   \<and> length (shuffle zero_draws (build_phases 10 1 0)) = 10
   \<and> count_list (shuffle zero_draws (build_phases 10 1 0)) VALID = 1
   \<and> count_list (shuffle zero_draws (build_phases 10 1 0)) TRAIN = 9
   \<and> fst (randomly_split_dataset zero_draws ten_subjects True) = Inr ()"
proof -
  have h1: "file_list ten_subjects = Some eleven_rows" by (simp add: ten_subjects_def)
  have h2: "ratios ten_subjects = Some [Num (Fin tenth), Num (Fin 0)]"
    by (simp add: ten_subjects_def)
  have h3: "clamp (Fin tenth) = Fin tenth"
    by (simp add: clamp_def py_min_def py_max_def tenth_def)
  have h4: "clamp (Fin 0) = Fin 0" by (simp add: clamp_def py_min_def py_max_def)
  have r: "length (rows eleven_rows) = 11" by (simp add: eleven_rows_def)
  have n: "count_ids eleven_rows = 10"
    by (simp add: count_ids_def subject_ids_def eleven_rows_def)
  have h5: "count_ids eleven_rows < 2 ^ 63" by (simp add: n)
  have c1: "\<lceil>float_times 10 tenth\<rceil> = 1" by (simp add: float_times_10_tenth)
  have c2: "\<lceil>float_times 10 0\<rceil> = 0" by (simp add: float_times_0)
  note w = split_labels_total [OF h1 h2 h3 h4 h5, of zero_draws, unfolded Let_def n c1 c2]
  from w have a: "length (shuffle zero_draws (build_phases 10 1 0)) = 10" by blast
  from w have b: "count_list (shuffle zero_draws (build_phases 10 1 0)) VALID = 1" by simp
  from w have c: "count_list (shuffle zero_draws (build_phases 10 1 0)) TRAIN = 9" by simp
  from w have d: "fst (randomly_split_dataset zero_draws ten_subjects True) = Inr ()" by blast
  show ?thesis by (intro conjI h1 h2 h3 h4 r n c1 exact_times_10_tenth c2 a b c d)
qed

text \<open>
  C7: when the concatenation of the train, validation and inference blocks is longer than
  \<open>n_total\<close>, \<^verbatim>\<open>randomly_split_dataset\<close> cuts it to its first \<open>n_total\<close> elements and
  writes the shuffle of that prefix as the labels of the split file. In the prefix the
  train block is empty, the validation block comes first and keeps as many labels as
  fit, and what is cut is cut from the inference block first.
\<close>

theorem truncation_from_tail:
  assumes "file_list st = Some fl" and "ratios st = Some [Num v, Num i]"
    and "clamp v = Fin qv" and "clamp i = Fin qi" and "count_ids fl < 2 ^ 63"
    and "n_total = count_ids fl"
    and "n_valid = \<lceil>float_times n_total qv\<rceil>" and "n_infer = \<lceil>float_times n_total qi\<rceil>"
    and "full = replicate (nat (int n_total - n_infer - n_valid)) TRAIN
                @ replicate (nat n_valid) VALID @ replicate (nat n_infer) INFER"
    and "length full > n_total"
  shows "files (snd (randomly_split_dataset rnd st True)) (data_split_file st)
           = Some (Csv (map (\<lambda>(c, l). (cell_text c, l))
                          (zip (subject_ids fl) (shuffle rnd (take n_total full)))))
       \<and> map snd (map (\<lambda>(c, l). (cell_text c, l))
                     (zip (subject_ids fl) (shuffle rnd (take n_total full))))
           = shuffle rnd (take n_total full)
       \<and> build_phases n_total n_valid n_infer = take n_total full
       \<and> take n_total full
           = replicate (min n_total (nat n_valid)) VALID
             @ replicate (n_total - nat n_valid) INFER
       \<and> length (take n_total full) = n_total
       \<and> n_total - nat n_valid \<le> nat n_infer"
proof -
  have nv0: "0 \<le> n_valid" unfolding assms(7) by (rule ceilings_nonneg(3) [OF assms(3)])
  have ni0: "0 \<le> n_infer" unfolding assms(8) by (rule ceilings_nonneg(3) [OF assms(4)])
  have neg: "int n_total - n_infer - n_valid < 0"
    using assms(10) nv0 ni0 unfolding assms(9) by simp
  have c: "build_phases n_total n_valid n_infer = take n_total full"
    using assms(10) by (simp add: build_phases_def Let_def assms(9))
  have d: "take n_total full
           = replicate (min n_total (nat n_valid)) VALID
             @ replicate (n_total - nat n_valid) INFER"
    using build_phases_over [OF neg nv0 ni0] c by simp
  have e: "length (take n_total full) = n_total"
    using length_build_phases [OF nv0 ni0, of n_total] c by simp
  have f: "n_total - nat n_valid \<le> nat n_infer" using neg nv0 ni0 by linarith
  have "length (shuffle rnd (take n_total full)) \<le> length (subject_ids fl)"
    using count_ids_le [of fl] e by (simp add: length_shuffle assms(6))
  then have b: "map snd (map (\<lambda>(c, l). (cell_text c, l))
                     (zip (subject_ids fl) (shuffle rnd (take n_total full))))
           = shuffle rnd (take n_total full)"
    by (rule labels_of_rows)
  have a: "files (snd (randomly_split_dataset rnd st True)) (data_split_file st)
           = Some (Csv (map (\<lambda>(c, l). (cell_text c, l))
                          (zip (subject_ids fl) (shuffle rnd (take n_total full)))))"
    using split_overwrite [OF assms(1-4), of rnd] c
    by (simp add: Let_def assms(6,7,8))
  show ?thesis by (intro conjI a b c d e f)
qed

lemma shuffle_zero_draws_3: "shuffle zero_draws [a, b, c] = [b, c, a]"
  by (simp add: shuffle_def swap_def zero_draws_def upt_rec)

theorem truncation_from_tail_witness:
  "file_list crowded = Some three_subjects
   \<and> ratios crowded = Some [Num (Fin (1 / 2)), Num (Fin 1)]
   \<and> count_ids three_subjects = 3
   \<and> \<lceil>float_times 3 (1 / 2)\<rceil> = 2 \<and> \<lceil>float_times 3 1\<rceil> = 3
   \<and> take 3 (replicate (nat (int 3 - 3 - 2)) TRAIN @ replicate (nat 2) VALID
              @ replicate (nat 3) INFER) = [VALID, VALID, INFER]
   \<and> files (snd (randomly_split_dataset zero_draws crowded True)) ''split.csv''
       = Some (Csv [(''s3'', VALID), (''s1'', INFER), (''s2'', VALID)])"
proof -
  have h1: "file_list crowded = Some three_subjects" by (simp add: crowded_def loaded_def)
  have h2: "ratios crowded = Some [Num (Fin (1 / 2)), Num (Fin 1)]" by (simp add: crowded_def)
  have h3: "clamp (Fin (1 / 2)) = Fin (1 / 2)" by (simp add: clamp_def py_min_def py_max_def)
  have h4: "clamp (Fin 1) = Fin 1" by (simp add: clamp_def py_min_def py_max_def)
  have n: "count_ids three_subjects = 3"
    by (simp add: count_ids_def subject_ids_def three_subjects_def)
  have h5: "count_ids three_subjects < 2 ^ 63" by (simp add: n)
  have c1: "\<lceil>float_times 3 (1 / 2)\<rceil> = 2"
  proof -
    have ft: "float_times 3 (1 / 2) = 3 / 2"
      by (simp add: float_times_def round_double_3 round_double_3_halves)
    show ?thesis unfolding ft by (rule ceiling_unique) simp_all
  qed
  have c2: "\<lceil>float_times 3 1\<rceil> = 3" by (simp add: float_times_def round_double_3)
  define full where "full = replicate (nat (int 3 - 3 - 2)) TRAIN @ replicate (nat 2) VALID
              @ replicate (nat 3) INFER"
  have full: "full = [VALID, VALID, INFER, INFER, INFER]"
    by (simp add: full_def numeral_2_eq_2 numeral_3_eq_3)
  have t: "take 3 full = [VALID, VALID, INFER]" by (simp add: full)
  have h10: "length full > 3" by (simp add: full)
  have sf: "data_split_file crowded = ''split.csv''"
    by (simp add: crowded_def loaded_def fresh_def)
  note w = truncation_from_tail [OF h1 h2 h3 h4 h5 n [symmetric] c1 [symmetric] c2 [symmetric]
      full_def h10, of zero_draws]
  from w have "files (snd (randomly_split_dataset zero_draws crowded True)) ''split.csv''
       = Some (Csv (map (\<lambda>(c, l). (cell_text c, l))
                      (zip (subject_ids three_subjects) (shuffle zero_draws (take 3 full)))))"
    by (simp add: sf)
  then have a: "files (snd (randomly_split_dataset zero_draws crowded True)) ''split.csv''
       = Some (Csv [(''s3'', VALID), (''s1'', INFER), (''s2'', VALID)])"
    by (simp add: t shuffle_zero_draws_3 subject_ids_def three_subjects_def cell_text_def)
  show ?thesis using h1 h2 n c1 c2 t a by (simp add: full_def)
qed
subsection \<open>Queries, and the split file on the load path\<close>

lemma read_partition:
  "read_csv na c [COLUMN_UNIQ_ID, COLUMN_PHASE] =
     (case c of Unparsable \<Rightarrow> Inl ParserError | Csv rs \<Rightarrow> Inr (read_rows na rs))"
  by (simp add: read_csv_def COLUMN_UNIQ_ID_def COLUMN_PHASE_def)



lemma initialise_on_disk:
  "initialise no_matcher zero_draws on_disk one_section False ''split.csv'' None =
     (Inr (), on_disk\<lparr>data_param := one_section, file_list := Some three_subjects,
                      logged := [(INFO, Using_existing_csv ''T1'' ''t1.csv''), (INFO, Summary)]\<rparr>)"
  by (simp add: initialise_def load_data_sections_by_subject_def one_section_def on_disk_def
      fresh_def grep_files_by_data_section_def searches_def logging_def no_files_def read_csv_def
      read_rows_def na_cell_def pandas_na_values_def COLUMN_UNIQ_ID_def named_def
      frame_size_def randomly_split_dataset_def three_subjects_def)




text \<open>
  C10: with both tables present, \<^verbatim>\<open>get_file_list\<close> does not check the phase against the
  supported names. For every phase other than \<^verbatim>\<open>'all'\<close> that is the label of no row of the
  partition table, a misspelt name included, and for every admissible choice of section
  names, it logs the warning about the empty subset and returns \<^verbatim>\<open>None\<close>, where
  \<^verbatim>\<open>number_of_subjects\<close> raises on a name that is not supported.
\<close>

theorem get_file_list_unmatched_phase:
  assumes "file_list st = Some fl" and "partition_ids st = Some p"
    and "phase \<noteq> ALL_PHASE" and "Some phase \<notin> set (map (\<lambda>(i, s, l). l) p)"
    and "set section_names \<subseteq> set (COLUMN_UNIQ_ID # columns fl)"
  shows "get_file_list st phase section_names
           = (Inr None, logging WARNING (Empty_subset phase) st)
       \<and> (lower phase \<notin> SUPPORTED_PHASES \<longrightarrow> number_of_subjects st phase = Inl ValueError)"
proof -
  have "filter (\<lambda>(i, s, l). l = Some phase) p = []"
    using assms(4) by (force simp: filter_empty_conv)
  then have "get_file_list st phase section_names
           = (Inr None, logging WARNING (Empty_subset phase) st)"
    using assms(1,2,3,5) by (simp add: get_file_list_def look_up_section_names_def)
  moreover have "lower phase \<notin> SUPPORTED_PHASES \<longrightarrow> number_of_subjects st phase = Inl ValueError"
    using assms(1) by (simp add: number_of_subjects_def look_up_operations_def)
  ultimately show ?thesis by simp
qed

theorem get_file_list_unmatched_phase_witness:
  "file_list partitioned = Some three_subjects
   \<and> get_file_list partitioned ''trian'' [] = (Inr None, logging WARNING (Empty_subset ''trian'') partitioned)
   \<and> get_file_list partitioned ''inference'' [''T1'']
       = (Inr None, logging WARNING (Empty_subset ''inference'') partitioned)
   \<and> number_of_subjects partitioned ''trian'' = Inl ValueError"
proof -
  have h1: "file_list partitioned = Some three_subjects"
    by (simp add: partitioned_def loaded_def)
  have h2: "partition_ids partitioned =
     Some [(0, Some ''s3'', Some ''train''), (1, Some ''s1'', Some ''validation''),
           (2, Some ''s2'', Some ''train'')]"
    by (simp add: partitioned_def)
  have l2: "lower ''trian'' \<notin> SUPPORTED_PHASES"
    by (simp add: lower_def lower_char_def SUPPORTED_PHASES_def VALID_def TRAIN_def INFER_def
        ALL_PHASE_def)
  have a: "get_file_list partitioned ''trian'' [] = (Inr None, logging WARNING (Empty_subset ''trian'') partitioned)
     \<and> number_of_subjects partitioned ''trian'' = Inl ValueError"
    using get_file_list_unmatched_phase [OF h1 h2, of "''trian''" "[]"] l2
    by (simp add: ALL_PHASE_def)
  have b: "get_file_list partitioned ''inference'' [''T1'']
       = (Inr None, logging WARNING (Empty_subset ''inference'') partitioned)"
    using get_file_list_unmatched_phase [OF h1 h2, of "''inference''" "[''T1'']"]
    by (simp add: ALL_PHASE_def three_subjects_def)
  from h1 a b show ?thesis by simp
qed

lemma rows_sort_index: "rows (sort_index fl) = sort_key fst (rows fl)"
  by (simp add: sort_index_def)

lemma labels_enumerate: "map fst (enumerate n xs) = [n..<n + length xs]"
  by (simp add: enumerate_eq_zip)

lemma labels_of_merge_sorted: "sorted (map fst (rows (pandas_merge l r)))"
  by (simp add: pandas_merge_def labels_enumerate)

lemma labels_of_read_sorted: "sorted (map fst (rows (named name (read_rows na rs))))"
proof -
  have "map fst (rows (named name t)) = map fst t" for t
    by (simp add: named_def case_prod_unfold comp_def)
  then show ?thesis by (simp add: read_rows_def labels_enumerate)
qed

text \<open>
  C4, as stated, fails: a csv file that lists the subjects s3, s1, s2 in this order gives
  a file table with the labels 0, 1, 2, and \<^verbatim>\<open>get_file_list('all')\<close> returns the rows in
  that order, which is not the order of the subject ids.
\<close>

theorem get_file_list_all_counterexample:
  "fst (get_file_list
          (snd (initialise no_matcher zero_draws on_disk one_section False ''split.csv'' None))
          ALL_PHASE [])
     = Inr (Some \<lparr>tcolumns = [''subject_id'', ''T1''],
                  trows = [(0, [Some ''s3'', Some ''c.nii'']), (1, [Some ''s1'', Some ''a.nii'']),
                           (2, [Some ''s2'', Some ''b.nii''])]\<rparr>)
   \<and> \<not> sorted [''s3'', ''s1'', ''s2'']"
  by (simp add: initialise_on_disk get_file_list_def sort_index_def as_table_def
      three_subjects_def COLUMN_UNIQ_ID_def)

text \<open>
  C4, amended: for every state with a file table, whatever the partition table is,
  \<^verbatim>\<open>get_file_list('all')\<close> returns the file table with exactly its rows, hence exactly
  its subjects, in ascending order of the row labels (\<^verbatim>\<open>sort_index\<close>), and stores the
  table in that order. When the labels are ascending already, as \<^verbatim>\<open>read_csv\<close> and
  \<^verbatim>\<open>merge\<close> number them, this is the table as it stands; the subject ids play no role in
  the order.
\<close>

theorem get_file_list_all:
  assumes "file_list st = Some fl"
  shows "get_file_list st ALL_PHASE [] =
           (Inr (Some (as_table (sort_index fl))), st\<lparr>file_list := Some (sort_index fl)\<rparr>)
       \<and> columns (sort_index fl) = columns fl
       \<and> mset (rows (sort_index fl)) = mset (rows fl)
       \<and> mset (subject_ids (sort_index fl)) = mset (subject_ids fl)
       \<and> sorted (map fst (rows (sort_index fl)))
       \<and> (sorted (map fst (rows fl)) \<longrightarrow> sort_index fl = fl)"
proof -
  have a: "get_file_list st ALL_PHASE [] =
           (Inr (Some (as_table (sort_index fl))), st\<lparr>file_list := Some (sort_index fl)\<rparr>)"
    using assms by (simp add: get_file_list_def Let_def)
  have b: "columns (sort_index fl) = columns fl" by (simp add: sort_index_def)
  have c: "mset (rows (sort_index fl)) = mset (rows fl)" by (simp add: rows_sort_index)
  have "mset (subject_ids (sort_index fl)) = image_mset (\<lambda>(i, s, cs). s) (mset (rows (sort_index fl)))"
    by (simp add: subject_ids_def)
  then have d: "mset (subject_ids (sort_index fl)) = mset (subject_ids fl)"
    by (simp add: c subject_ids_def)
  have e: "sorted (map fst (rows (sort_index fl)))" by (simp add: rows_sort_index)
  have f: "sorted (map fst (rows fl)) \<longrightarrow> sort_index fl = fl"
    by (simp add: sort_index_def sort_key_id_if_sorted)
  show ?thesis by (intro conjI a b c d e f)
qed

theorem get_file_list_all_witness:
  "file_list loaded = Some three_subjects \<and> sorted (map fst (rows three_subjects))
   \<and> get_file_list loaded ALL_PHASE [] = (Inr (Some (as_table three_subjects)), loaded)"
proof -
  have h: "file_list loaded = Some three_subjects" by (simp add: loaded_def)
  have s: "sorted (map fst (rows three_subjects))" by (simp add: three_subjects_def)
  have "loaded\<lparr>file_list := Some three_subjects\<rparr> = loaded" by (simp add: loaded_def)
  with get_file_list_all [OF h] s h show ?thesis by simp
qed

text \<open>
  C9, as stated, fails: with a split file that the csv reader cannot parse,
  \<^verbatim>\<open>randomly_split_dataset(overwrite=False)\<close> returns normally and the partition table
  stays absent.
\<close>

theorem unparsable_split_file_counterexample:
  "files corrupt_split (data_split_file corrupt_split) = Some Unparsable
   \<and> fst (randomly_split_dataset zero_draws corrupt_split False) = Inr ()
   \<and> partition_ids (snd (randomly_split_dataset zero_draws corrupt_split False)) = None"
  by (simp add: corrupt_split_def loaded_def fresh_def randomly_split_dataset_def
      read_partition logging_def)

text \<open>
  C9, amended: when the split file exists and cannot be parsed on the load path,
  \<^verbatim>\<open>randomly_split_dataset\<close> logs the reader's exception as a warning and returns
  normally, with the partition table as it was before the call. The failure shows later:
  if the partition table was absent, \<^verbatim>\<open>get_file_list\<close> for a phase other than
  \<^verbatim>\<open>'all'\<close> raises \<^verbatim>\<open>ValueError\<close>.
\<close>

theorem unparsable_split_file:
  assumes "files st (data_split_file st) = Some Unparsable"
  shows "randomly_split_dataset rnd st False =
           (Inr (), logging WARNING (Csv_error ParserError)
                      (if ratios st \<noteq> None \<and> ratios st \<noteq> Some []
                       then logging WARNING Ignoring_ratios st else st))
       \<and> partition_ids (snd (randomly_split_dataset rnd st False)) = partition_ids st
       \<and> (partition_ids st = None \<and> file_list st = Some fl \<and> phase \<noteq> ALL_PHASE \<longrightarrow>
            fst (get_file_list (snd (randomly_split_dataset rnd st False)) phase [])
              = Inl ValueError)"
  using assms
  by (simp add: randomly_split_dataset_def read_partition logging_def get_file_list_def Let_def)

theorem unparsable_split_file_witness:
  "files corrupt_split (data_split_file corrupt_split) = Some Unparsable
   \<and> randomly_split_dataset zero_draws corrupt_split False
       = (Inr (), logging WARNING (Csv_error ParserError) corrupt_split)
   \<and> fst (get_file_list (snd (randomly_split_dataset zero_draws corrupt_split False)) TRAIN [])
       = Inl ValueError"
proof -
  have h: "files corrupt_split (data_split_file corrupt_split) = Some Unparsable"
    by (simp add: corrupt_split_def loaded_def fresh_def)
  have r: "ratios corrupt_split = None" "partition_ids corrupt_split = None"
    "file_list corrupt_split = Some three_subjects"
    by (simp_all add: corrupt_split_def loaded_def fresh_def)
  have t: "TRAIN \<noteq> ALL_PHASE" by (simp add: TRAIN_def ALL_PHASE_def)
  note w = unparsable_split_file [OF h, of zero_draws three_subjects TRAIN]
  from w r have a: "randomly_split_dataset zero_draws corrupt_split False
       = (Inr (), logging WARNING (Csv_error ParserError) corrupt_split)"
    by simp
  from w r t have c:
    "fst (get_file_list (snd (randomly_split_dataset zero_draws corrupt_split False)) TRAIN [])
       = Inl ValueError"
    by blast
  show ?thesis by (intro conjI h a c)
qed
subsection \<open>Loading the sections: what the loop keeps\<close>

lemma same_settings_refl: "same_settings st st"
  by (simp add: same_settings_def)

lemma same_settings_trans:
  "same_settings a b \<Longrightarrow> same_settings b c \<Longrightarrow> same_settings a c"
  by (simp add: same_settings_def)

lemma same_settings_logging: "same_settings st (logging l m st)"
  by (simp add: same_settings_def logging_def)

lemma grep_settings:
  assumes "grep_files_by_data_section m st n = (r, st')"
  shows "same_settings st st'" and "file_list st' = file_list st"
  using assms
  by (auto simp: grep_files_by_data_section_def same_settings_def logging_def write_file_def
      Let_def split: option.splits sum.splits prod.splits if_splits)

lemma grep_files:
  assumes "grep_files_by_data_section m st n = (r, st')"
    and "not_rewritten (data_param st) p"
  shows "files st' p = files st p"
proof -
  have "\<And>sec. map_of (data_param st) n = Some sec \<Longrightarrow> searches sec \<Longrightarrow> csv_file sec \<noteq> Some p"
    using assms(2) by (auto simp: not_rewritten_def dest!: map_of_SomeD)
  then show ?thesis
    using assms(1)
    by (auto simp: grep_files_by_data_section_def logging_def write_file_def
      Let_def split: option.splits sum.splits prod.splits if_splits)
qed

lemma grep_logged:
  assumes "grep_files_by_data_section m st n = (r, st')"
  shows "\<exists>new. logged st' = logged st @ new"
  using assms
  by (auto simp: grep_files_by_data_section_def logging_def write_file_def
      Let_def split: option.splits sum.splits prod.splits if_splits)


lemma load_loop_Cons_error:
  "grep_files_by_data_section m st n = (Inl e, s1) \<Longrightarrow> load_loop m st (n # ns) = (Some e, s1)"
  by simp

lemma load_loop_Cons_first:
  assumes "grep_files_by_data_section m st n = (Inr t, s1)" and "file_list st = None"
  shows "load_loop m st (n # ns) = load_loop m (s1\<lparr>file_list := Some t\<rparr>) ns"
  using assms grep_settings(2) [OF assms(1)] by simp

lemma load_loop_Cons_merge:
  assumes "grep_files_by_data_section m st n = (Inr t, s1)" and "file_list st = Some fl"
  shows "load_loop m st (n # ns) =
           load_loop m (s1\<lparr>file_list := Some (pandas_merge fl t),
                           logged := logged s1 @
                             (if count_ids (pandas_merge fl t) < count_ids fl
                              then [(WARNING, Rows_not_matched n)] else [])\<rparr>) ns"
  using assms grep_settings(2) [OF assms(1)] by (simp add: Let_def logging_def)

lemma load_loop_cases:
  obtains (error) e s1 where "grep_files_by_data_section m st n = (Inl e, s1)"
      "load_loop m st (n # ns) = (Some e, s1)"
  | (continue) t s1 s2 where "grep_files_by_data_section m st n = (Inr t, s1)"
      "load_loop m st (n # ns) = load_loop m s2 ns"
      "same_settings s1 s2" "files s2 = files s1" "file_list s2 \<noteq> None"
proof (cases "grep_files_by_data_section m st n")
  case (Pair r s1)
  show ?thesis
  proof (cases r)
    case (Inl e)
    with Pair show ?thesis using error by simp
  next
    case (Inr t)
    note g = Pair [unfolded Inr]
    show ?thesis
    proof (cases "file_list st")
      case None
      from load_loop_Cons_first [OF g None] show ?thesis
        using continue [OF g, of "s1\<lparr>file_list := Some t\<rparr>"] by (simp add: same_settings_def)
    next
      case (Some fl)
      from load_loop_Cons_merge [OF g Some] show ?thesis
        using continue [OF g, of "s1\<lparr>file_list := Some (pandas_merge fl t),
                           logged := logged s1 @
                             (if count_ids (pandas_merge fl t) < count_ids fl
                              then [(WARNING, Rows_not_matched n)] else [])\<rparr>"]
        by (simp add: same_settings_def)
    qed
  qed
qed

lemma load_loop_settings:
  "load_loop m st ns = (r, st') \<Longrightarrow> same_settings st st'"
proof (induction ns arbitrary: st)
  case Nil
  then show ?case by (simp add: same_settings_refl)
next
  case (Cons n ns)
  show ?case
  proof (cases rule: load_loop_cases [of m st n ns])
    case (error e s1)
    with Cons.prems grep_settings(1) show ?thesis by simp
  next
    case (continue t s1 s2)
    from Cons.prems continue(2) have "load_loop m s2 ns = (r, st')" by simp
    from Cons.IH [OF this] grep_settings(1) [OF continue(1)] continue(3)
    show ?thesis by (blast intro: same_settings_trans)
  qed
qed

lemma load_loop_files:
  "load_loop m st ns = (r, st') \<Longrightarrow> not_rewritten (data_param st) p
     \<Longrightarrow> files st' p = files st p"
proof (induction ns arbitrary: st)
  case Nil
  then show ?case by simp
next
  case (Cons n ns)
  show ?case
  proof (cases rule: load_loop_cases [of m st n ns])
    case (error e s1)
    with Cons.prems grep_files show ?thesis by simp
  next
    case (continue t s1 s2)
    from Cons.prems continue(2) have l: "load_loop m s2 ns = (r, st')" by simp
    have "data_param s2 = data_param st"
      using grep_settings(1) [OF continue(1)] continue(3) by (simp add: same_settings_def)
    with Cons.prems(2) have "not_rewritten (data_param s2) p" by simp
    from Cons.IH [OF l this] grep_files [OF continue(1) Cons.prems(2)] continue(4)
    show ?thesis by simp
  qed
qed

lemma load_loop_error:
  "load_loop m st ns = (Some e, st')
     \<Longrightarrow> \<exists>s n. n \<in> set ns \<and> grep_files_by_data_section m s n = (Inl e, st')"
proof (induction ns arbitrary: st)
  case Nil
  then show ?case by simp
next
  case (Cons n ns)
  show ?case
  proof (cases rule: load_loop_cases [of m st n ns])
    case (error e' s1)
    with Cons.prems have "grep_files_by_data_section m st n = (Inl e, st')" by simp
    then show ?thesis by auto
  next
    case (continue t s1 s2)
    from Cons.prems continue(2) have "load_loop m s2 ns = (Some e, st')" by simp
    from Cons.IH [OF this] show ?thesis by auto
  qed
qed

lemma load_loop_table:
  "load_loop m st ns = (None, st') \<Longrightarrow> ns \<noteq> [] \<or> file_list st \<noteq> None
     \<Longrightarrow> file_list st' \<noteq> None"
proof (induction ns arbitrary: st)
  case Nil
  then show ?case by simp
next
  case (Cons n ns)
  show ?case
  proof (cases rule: load_loop_cases [of m st n ns])
    case (error e s1)
    with Cons.prems show ?thesis by simp
  next
    case (continue t s1 s2)
    from Cons.prems continue(2) have "load_loop m s2 ns = (None, st')" by simp
    from Cons.IH [OF this] continue(5) show ?thesis by simp
  qed
qed

lemma frame_size_0: "frame_size fl = 0 \<longleftrightarrow> rows fl = []"
  by (auto simp: frame_size_def)

lemma load_data_settings:
  assumes "load_data_sections_by_subject m st = (r, st')"
  shows "same_settings st st'"
proof (cases "data_param st = []")
  case True
  with assms show ?thesis
    by (auto simp: load_data_sections_by_subject_def same_settings_logging)
next
  case False
  obtain r1 s1 where l: "load_loop m (st\<lparr>file_list := None\<rparr>) (map fst (data_param st)) = (r1, s1)"
    by (cases "load_loop m (st\<lparr>file_list := None\<rparr>) (map fst (data_param st))")
  from load_loop_settings [OF l] have "same_settings st s1" by (simp add: same_settings_def)
  moreover have "st' = s1 \<or> st' = logging FATAL Empty_filename_lists s1"
    using assms False l
    by (auto simp: load_data_sections_by_subject_def split: option.splits if_splits)
  ultimately show ?thesis
    using same_settings_logging [of s1] by (auto intro: same_settings_trans)
qed

lemma load_data_files:
  assumes "load_data_sections_by_subject m st = (r, st')"
    and "not_rewritten (data_param st) p"
  shows "files st' p = files st p"
proof (cases "data_param st = []")
  case True
  with assms show ?thesis
    by (auto simp: load_data_sections_by_subject_def logging_def)
next
  case False
  obtain r1 s1 where l: "load_loop m (st\<lparr>file_list := None\<rparr>) (map fst (data_param st)) = (r1, s1)"
    by (cases "load_loop m (st\<lparr>file_list := None\<rparr>) (map fst (data_param st))")
  from load_loop_files [OF l] assms(2) have "files s1 p = files st p" by simp
  moreover have "st' = s1 \<or> st' = logging FATAL Empty_filename_lists s1"
    using assms False l
    by (auto simp: load_data_sections_by_subject_def split: option.splits if_splits)
  ultimately show ?thesis by (auto simp: logging_def)
qed
subsection \<open>Failures of the merger and of the initialisation\<close>

text \<open>
  C8, as stated, fails: with an empty section list the merger raises \<^verbatim>\<open>ValueError\<close>,
  which is not \<^verbatim>\<open>IOError\<close>.
\<close>

theorem merger_empty_sections_counterexample:
  "data_param fresh = []
   \<and> fst (load_data_sections_by_subject no_matcher fresh) = Inl ValueError
   \<and> fst (load_data_sections_by_subject no_matcher fresh) \<noteq> Inl IOError"
  by (simp add: load_data_sections_by_subject_def fresh_def)

lemma load_data_unfold:
  assumes "data_param st \<noteq> []"
    and "load_loop m (st\<lparr>file_list := None\<rparr>) (map fst (data_param st)) = (r1, s1)"
  shows "load_data_sections_by_subject m st =
     (case r1 of
        Some e \<Rightarrow> (Inl e, s1)
      | None \<Rightarrow>
          if (case file_list s1 of None \<Rightarrow> True | Some fl \<Rightarrow> rows fl = [])
          then (Inl IOError, logging FATAL Empty_filename_lists s1)
          else (Inr (), s1))"
  using assms
  by (simp add: load_data_sections_by_subject_def frame_size_0 split: option.splits)

text \<open>
  C8, amended: the merger raises of its own accord in exactly two cases, each after a
  fatal log record: \<^verbatim>\<open>ValueError\<close> when the section list is empty (the state is
  otherwise untouched), and \<^verbatim>\<open>IOError\<close> when every section was loaded and the final
  merged table has no rows (the record is the long message on the likely causes). Every
  other failure of the merger is the exception of the loader of one of the sections,
  passed on as it is. When the merger returns normally there is a table with at least one
  row.
\<close>

theorem merger_failures:
  "(data_param st = [] \<longrightarrow>
      load_data_sections_by_subject m st = (Inl ValueError, logging FATAL Nothing_to_load st))
   \<and> (data_param st \<noteq> [] \<and> load_data_sections_by_subject m st = (Inl e, st') \<longrightarrow>
        (e = IOError \<and> (\<exists>fl. file_list st' = Some fl \<and> rows fl = [])
           \<and> last (logged st') = (FATAL, Empty_filename_lists))
        \<or> (\<exists>s name. name \<in> set (map fst (data_param st))
              \<and> grep_files_by_data_section m s name = (Inl e, st')))
   \<and> (load_data_sections_by_subject m st = (Inr (), st') \<longrightarrow>
        data_param st \<noteq> [] \<and> (\<exists>fl. file_list st' = Some fl \<and> rows fl \<noteq> []))"
proof (intro conjI impI)
  assume "data_param st = []"
  then show "load_data_sections_by_subject m st = (Inl ValueError, logging FATAL Nothing_to_load st)"
    by (simp add: load_data_sections_by_subject_def)
next
  assume a: "data_param st \<noteq> [] \<and> load_data_sections_by_subject m st = (Inl e, st')"
  obtain r1 s1 where l: "load_loop m (st\<lparr>file_list := None\<rparr>) (map fst (data_param st)) = (r1, s1)"
    by (cases "load_loop m (st\<lparr>file_list := None\<rparr>) (map fst (data_param st))")
  show "(e = IOError \<and> (\<exists>fl. file_list st' = Some fl \<and> rows fl = [])
           \<and> last (logged st') = (FATAL, Empty_filename_lists))
        \<or> (\<exists>s name. name \<in> set (map fst (data_param st))
              \<and> grep_files_by_data_section m s name = (Inl e, st'))"
  proof (cases r1)
    case (Some e')
    with a load_data_unfold [OF _ l] have "e' = e" "s1 = st'" by simp_all
    with l Some load_loop_error [of m "st\<lparr>file_list := None\<rparr>" "map fst (data_param st)" e st']
    show ?thesis by simp
  next
    case None
    with a have ne: "map fst (data_param st) \<noteq> []" by simp
    from load_loop_table [OF l [unfolded None]] ne obtain fl where fl: "file_list s1 = Some fl"
      by auto
    from a load_data_unfold [OF _ l] None fl
    have "e = IOError" "rows fl = []" "st' = logging FATAL Empty_filename_lists s1"
      by (simp_all split: if_splits)
    with fl show ?thesis by (simp add: logging_def)
  qed
next
  assume a: "load_data_sections_by_subject m st = (Inr (), st')"
  then have ne: "data_param st \<noteq> []"
    by (auto simp: load_data_sections_by_subject_def)
  obtain r1 s1 where l: "load_loop m (st\<lparr>file_list := None\<rparr>) (map fst (data_param st)) = (r1, s1)"
    by (cases "load_loop m (st\<lparr>file_list := None\<rparr>) (map fst (data_param st))")
  from a load_data_unfold [OF ne l]
  have "r1 = None" "st' = s1" "\<exists>fl. file_list s1 = Some fl \<and> rows fl \<noteq> []"
    by (auto split: option.splits if_splits)
  then show "\<exists>fl. file_list st' = Some fl \<and> rows fl \<noteq> []" by simp
  from ne show "data_param st \<noteq> []" .
qed


lemmas eval_loader =
  load_data_sections_by_subject_def grep_files_by_data_section_def searches_def logging_def
  read_csv_def read_rows_def na_cell_def pandas_na_values_def COLUMN_UNIQ_ID_def named_def
  frame_size_def pandas_merge_def join_rows_def count_ids_def subject_ids_def
  two_sections_def fresh_def no_files_def

lemma load_unmatched:
  "load_data_sections_by_subject no_matcher unmatched =
     (Inr (), unmatched\<lparr>file_list := Some \<lparr>columns = [''T1'', ''T2''],
                  rows = [(0, Some ''s2'', [Some ''a2'', Some ''b2'']),
                          (1, Some ''s3'', [Some ''a3'', Some ''b3''])]\<rparr>,
                logged := [(INFO, Using_existing_csv ''T1'' ''t1.csv''),
                           (INFO, Using_existing_csv ''T2'' ''t2.csv''),
                           (WARNING, Rows_not_matched ''T2'')]\<rparr>)"
  by (simp add: eval_loader unmatched_def)

lemma load_disjoint_ids:
  "load_data_sections_by_subject no_matcher disjoint_ids =
     (Inl IOError, disjoint_ids\<lparr>file_list := Some \<lparr>columns = [''T1'', ''T2''], rows = []\<rparr>,
                logged := [(INFO, Using_existing_csv ''T1'' ''t1.csv''),
                           (INFO, Using_existing_csv ''T2'' ''t2.csv''),
                           (WARNING, Rows_not_matched ''T2''),
                           (FATAL, Empty_filename_lists)]\<rparr>)"
  by (simp add: eval_loader disjoint_ids_def)

theorem merger_failures_witness:
  "data_param fresh = []
   \<and> load_data_sections_by_subject no_matcher fresh
       = (Inl ValueError, logging FATAL Nothing_to_load fresh)
   \<and> data_param disjoint_ids \<noteq> []
   \<and> fst (load_data_sections_by_subject no_matcher disjoint_ids) = Inl IOError
   \<and> file_list (snd (load_data_sections_by_subject no_matcher disjoint_ids))
       = Some \<lparr>columns = [''T1'', ''T2''], rows = []\<rparr>
   \<and> (last (logged (snd (load_data_sections_by_subject no_matcher disjoint_ids)))
         = (FATAL, Empty_filename_lists)
        \<or> (\<exists>s name. name \<in> set (map fst (data_param disjoint_ids))
              \<and> grep_files_by_data_section no_matcher s name
                  = (Inl IOError, snd (load_data_sections_by_subject no_matcher disjoint_ids))))
   \<and> fst (load_data_sections_by_subject no_matcher unmatched) = Inr ()
   \<and> (\<exists>fl. file_list (snd (load_data_sections_by_subject no_matcher unmatched)) = Some fl
             \<and> rows fl \<noteq> [])"
proof -
  have h1: "data_param fresh = []" by (simp add: fresh_def)
  have h2: "data_param disjoint_ids \<noteq> []" by (simp add: disjoint_ids_def two_sections_def)
  have a: "load_data_sections_by_subject no_matcher fresh
       = (Inl ValueError, logging FATAL Nothing_to_load fresh)"
    using merger_failures [of fresh no_matcher] h1 by blast
  have h3: "load_data_sections_by_subject no_matcher unmatched
       = (Inr (), snd (load_data_sections_by_subject no_matcher unmatched))"
    by (simp add: load_unmatched)
  have c: "\<exists>fl. file_list (snd (load_data_sections_by_subject no_matcher unmatched)) = Some fl
             \<and> rows fl \<noteq> []"
    using merger_failures [of unmatched no_matcher IOError
        "snd (load_data_sections_by_subject no_matcher unmatched)"] h3 by blast
  have b: "fst (load_data_sections_by_subject no_matcher disjoint_ids) = Inl IOError"
    "file_list (snd (load_data_sections_by_subject no_matcher disjoint_ids))
       = Some \<lparr>columns = [''T1'', ''T2''], rows = []\<rparr>"
    by (simp_all add: load_disjoint_ids)
  have h4: "fst (load_data_sections_by_subject no_matcher unmatched) = Inr ()"
    by (simp add: load_unmatched)
  have h5: "load_data_sections_by_subject no_matcher disjoint_ids
       = (Inl IOError, snd (load_data_sections_by_subject no_matcher disjoint_ids))"
    by (simp add: load_disjoint_ids)
  have d: "last (logged (snd (load_data_sections_by_subject no_matcher disjoint_ids)))
         = (FATAL, Empty_filename_lists)
        \<or> (\<exists>s name. name \<in> set (map fst (data_param disjoint_ids))
              \<and> grep_files_by_data_section no_matcher s name
                  = (Inl IOError, snd (load_data_sections_by_subject no_matcher disjoint_ids)))"
    using merger_failures [of disjoint_ids no_matcher IOError
        "snd (load_data_sections_by_subject no_matcher disjoint_ids)"] h2 h5 by blast
  show ?thesis by (intro conjI h1 a h2 b d h4 c)
qed

lemma split_failure:
  assumes "randomly_split_dataset rnd st ow = (Inl e, st')"
  shows "ow \<and> (st' = st \<or> st' = logging FATAL Unknown_fraction_format st)"
  using assms
  by (auto simp: randomly_split_dataset_def Let_def
      split: option.splits sum.splits prod.splits if_splits)

text \<open>
  C2, as stated, fails: a store that holds a file table and a partition table is
  initialised with an empty section list; the call raises \<^verbatim>\<open>ValueError\<close> and leaves
  both tables absent.
\<close>

theorem initialise_failure_counterexample:
  "file_list partitioned = Some three_subjects
   \<and> partition_ids partitioned
       = Some [(0, Some ''s3'', Some ''train''), (1, Some ''s1'', Some ''validation''),
               (2, Some ''s2'', Some ''train'')]
   \<and> fst (initialise no_matcher zero_draws partitioned [] False ''split.csv'' None)
       = Inl ValueError
   \<and> file_list (snd (initialise no_matcher zero_draws partitioned [] False ''split.csv'' None))
       = None
   \<and> partition_ids (snd (initialise no_matcher zero_draws partitioned [] False ''split.csv'' None))
       = None"
  by (simp add: initialise_def load_data_sections_by_subject_def partitioned_def loaded_def
      logging_def)

text \<open>
  C2, amended: \<^verbatim>\<open>initialise\<close> stores its arguments and resets both tables before it
  loads anything, so a call that raises does not leave the store as it was. After the
  failed call the partition table is absent, and \<^verbatim>\<open>data_param\<close>,
  \<^verbatim>\<open>data_split_file\<close> and \<^verbatim>\<open>ratios\<close> are the new arguments. The file table is
  what the merger had built from the new sections: when the merger raised, the state is
  the one it raised in (no table for an empty section list); when the split raised, the
  file table is the complete, non-empty merge. The tables held before the call have no
  influence: the same call from any other pair of prior tables ends in the same exception
  and the same state.
\<close>

theorem initialise_failure_state:
  assumes "initialise m rnd st dp np split_file r = (Inl e, st')"
  shows "partition_ids st' = None \<and> data_param st' = dp \<and> data_split_file st' = split_file
       \<and> ratios st' = r
       \<and> (dp = [] \<longrightarrow> e = ValueError \<and> file_list st' = None)
       \<and> (load_data_sections_by_subject m
             (st\<lparr>data_param := dp, data_split_file := split_file, ratios := r,
                  file_list := None, partition_ids := None\<rparr>) = (Inl e, st')
          \<or> (\<exists>s1 fl.
                load_data_sections_by_subject m
                  (st\<lparr>data_param := dp, data_split_file := split_file, ratios := r,
                       file_list := None, partition_ids := None\<rparr>) = (Inr (), s1)
                \<and> file_list s1 = Some fl \<and> rows fl \<noteq> [] \<and> file_list st' = Some fl
                \<and> np
                \<and> randomly_split_dataset rnd (s1\<lparr>new_partition := True\<rparr>) True = (Inl e, st')))
       \<and> initialise m rnd (st\<lparr>file_list := fl0, partition_ids := p0\<rparr>) dp np split_file r
           = (Inl e, st')"
proof -
  define st0 where "st0 = st\<lparr>data_param := dp, data_split_file := split_file, ratios := r,
                   file_list := None, partition_ids := None\<rparr>"
  obtain r1 s1 where l: "load_data_sections_by_subject m st0 = (r1, s1)"
    by (cases "load_data_sections_by_subject m st0")
  have init: "initialise m rnd st dp np split_file r =
     (case r1 of
        Inl e \<Rightarrow> (Inl e, s1)
      | Inr u \<Rightarrow>
          (case randomly_split_dataset rnd (s1\<lparr>new_partition := np\<rparr>) np of
             (Inl e, st2) \<Rightarrow> (Inl e, st2)
           | (Inr u, st2) \<Rightarrow> (Inr (), logging INFO Summary st2)))"
    using l by (simp add: initialise_def st0_def [symmetric])
  have s1: "same_settings st0 s1" by (rule load_data_settings [OF l])
  have both: "(partition_ids st' = None \<and> data_param st' = dp
       \<and> data_split_file st' = split_file \<and> ratios st' = r)
     \<and> (load_data_sections_by_subject m st0 = (Inl e, st')
          \<or> (\<exists>s1 fl. load_data_sections_by_subject m st0 = (Inr (), s1)
                \<and> file_list s1 = Some fl \<and> rows fl \<noteq> [] \<and> file_list st' = Some fl
                \<and> np
                \<and> randomly_split_dataset rnd (s1\<lparr>new_partition := True\<rparr>) True = (Inl e, st')))"
  proof (cases r1)
    case (Inl e')
    with assms init have eq: "st' = s1" "e' = e" by simp_all
    with s1 have "partition_ids st' = None \<and> data_param st' = dp
       \<and> data_split_file st' = split_file \<and> ratios st' = r"
      by (simp add: same_settings_def st0_def)
    moreover from l Inl eq have "load_data_sections_by_subject m st0 = (Inl e, st')" by simp
    ultimately show ?thesis by blast
  next
    case (Inr u)
    with l have l': "load_data_sections_by_subject m st0 = (Inr (), s1)" by simp
    obtain r2 s2 where sp: "randomly_split_dataset rnd (s1\<lparr>new_partition := np\<rparr>) np = (r2, s2)"
      by (cases "randomly_split_dataset rnd (s1\<lparr>new_partition := np\<rparr>) np")
    from assms init Inr sp have "r2 = Inl e" "s2 = st'" by (auto split: sum.splits)
    with sp have sp': "randomly_split_dataset rnd (s1\<lparr>new_partition := np\<rparr>) np = (Inl e, st')"
      by simp
    from split_failure [OF sp']
    have np: "np" and st': "st' = s1\<lparr>new_partition := np\<rparr>
        \<or> st' = logging FATAL Unknown_fraction_format (s1\<lparr>new_partition := np\<rparr>)"
      by blast+
    from st' have fl: "file_list st' = file_list s1" by (auto simp: logging_def)
    from l' have ne: "data_param st0 \<noteq> []"
      by (auto simp: load_data_sections_by_subject_def)
    obtain r3 s3 where lp:
      "load_loop m (st0\<lparr>file_list := None\<rparr>) (map fst (data_param st0)) = (r3, s3)"
      by (cases "load_loop m (st0\<lparr>file_list := None\<rparr>) (map fst (data_param st0))")
    from l' load_data_unfold [OF ne lp]
    obtain tb where tb: "file_list s1 = Some tb" "rows tb \<noteq> []"
      by (auto split: option.splits if_splits)
    have "partition_ids st' = None \<and> data_param st' = dp
       \<and> data_split_file st' = split_file \<and> ratios st' = r"
      using st' s1 by (auto simp: same_settings_def st0_def logging_def)
    moreover have "\<exists>s1 fl. load_data_sections_by_subject m st0 = (Inr (), s1)
                \<and> file_list s1 = Some fl \<and> rows fl \<noteq> [] \<and> file_list st' = Some fl
                \<and> np
                \<and> randomly_split_dataset rnd (s1\<lparr>new_partition := True\<rparr>) True = (Inl e, st')"
      using l' tb fl np sp' by auto
    ultimately show ?thesis by blast
  qed
  have empty: "dp = [] \<longrightarrow> e = ValueError \<and> file_list st' = None"
  proof
    assume "dp = []"
    then have "load_data_sections_by_subject m st0 = (Inl ValueError, logging FATAL Nothing_to_load st0)"
      by (simp add: load_data_sections_by_subject_def st0_def)
    with l init assms show "e = ValueError \<and> file_list st' = None"
      by (auto simp: logging_def st0_def)
  qed
  have "(st\<lparr>file_list := fl0, partition_ids := p0\<rparr>)\<lparr>data_param := dp,
          data_split_file := split_file, ratios := r, file_list := None, partition_ids := None\<rparr>
        = st0"
    by (simp add: st0_def)
  then have same: "initialise m rnd (st\<lparr>file_list := fl0, partition_ids := p0\<rparr>) dp np split_file r
           = (Inl e, st')"
    using assms by (simp add: initialise_def st0_def)
  from both empty same show ?thesis unfolding st0_def by blast
qed

lemma initialise_halfway:
  "initialise no_matcher zero_draws on_disk two_sections False ''split.csv'' None
     = (Inl IOError,
        on_disk\<lparr>data_param := two_sections, file_list := Some three_subjects,
                logged := [(INFO, Using_existing_csv ''T1'' ''t1.csv''),
                           (INFO, Using_existing_csv ''T2'' ''t2.csv''),
                           (FATAL, Csv_not_found ''T2'' ''t2.csv'')]\<rparr>)"
  by (simp add: initialise_def eval_loader on_disk_def three_subjects_def)

lemma initialise_bad_ratios:
  "initialise no_matcher zero_draws on_disk one_section True ''split.csv'' None
     = (Inl TypeError,
        on_disk\<lparr>data_param := one_section, file_list := Some three_subjects,
                new_partition := True,
                logged := [(INFO, Using_existing_csv ''T1'' ''t1.csv''),
                           (FATAL, Unknown_fraction_format)]\<rparr>)"
  by (simp add: initialise_def eval_loader one_section_def on_disk_def three_subjects_def
      randomly_split_dataset_def unpack_ratios_def)

theorem initialise_failure_state_witness:
  "fst (initialise no_matcher zero_draws on_disk two_sections False ''split.csv'' None)
     = Inl IOError
   \<and> file_list (snd (initialise no_matcher zero_draws on_disk two_sections False
                        ''split.csv'' None)) = Some three_subjects
   \<and> partition_ids (snd (initialise no_matcher zero_draws on_disk two_sections False
                           ''split.csv'' None)) = None
   \<and> fst (initialise no_matcher zero_draws on_disk one_section True ''split.csv'' None)
       = Inl TypeError
   \<and> file_list (snd (initialise no_matcher zero_draws on_disk one_section True
                        ''split.csv'' None)) = Some three_subjects
   \<and> initialise no_matcher zero_draws partitioned one_section True ''split.csv'' None
       = initialise no_matcher zero_draws
           (partitioned\<lparr>file_list := None, partition_ids := None\<rparr>) one_section True
           ''split.csv'' None
   \<and> fst (initialise no_matcher zero_draws partitioned [] True ''split.csv'' None)
       = Inl ValueError
   \<and> file_list (snd (initialise no_matcher zero_draws partitioned [] True ''split.csv'' None))
       = None"
proof -
  define half where
    "half = snd (initialise no_matcher zero_draws on_disk two_sections False ''split.csv'' None)"
  have h1: "initialise no_matcher zero_draws on_disk two_sections False ''split.csv'' None
      = (Inl IOError, half)"
    by (simp add: half_def initialise_halfway)
  have a1: "fst (initialise no_matcher zero_draws on_disk two_sections False ''split.csv'' None)
     = Inl IOError"
    by (simp add: initialise_halfway)
  have a2: "file_list (snd (initialise no_matcher zero_draws on_disk two_sections False
                        ''split.csv'' None)) = Some three_subjects"
    by (simp add: initialise_halfway)
  from initialise_failure_state [OF h1]
  have a3: "partition_ids (snd (initialise no_matcher zero_draws on_disk two_sections False
                           ''split.csv'' None)) = None"
    unfolding half_def by blast
  have b1: "fst (initialise no_matcher zero_draws on_disk one_section True ''split.csv'' None)
       = Inl TypeError"
    by (simp add: initialise_bad_ratios)
  have b2: "file_list (snd (initialise no_matcher zero_draws on_disk one_section True
                        ''split.csv'' None)) = Some three_subjects"
    by (simp add: initialise_bad_ratios)
  define gone where
    "gone = snd (initialise no_matcher zero_draws partitioned one_section True ''split.csv'' None)"
  have "fst (initialise no_matcher zero_draws partitioned one_section True ''split.csv'' None)
      = Inl IOError"
    by (simp add: initialise_def eval_loader one_section_def partitioned_def loaded_def)
  then have h2: "initialise no_matcher zero_draws partitioned one_section True ''split.csv'' None
      = (Inl IOError, gone)"
    by (simp add: gone_def prod_eq_iff)
  from initialise_failure_state [OF h2, of None None]
  have c: "initialise no_matcher zero_draws partitioned one_section True ''split.csv'' None
       = initialise no_matcher zero_draws
           (partitioned\<lparr>file_list := None, partition_ids := None\<rparr>) one_section True
           ''split.csv'' None"
    using h2 by simp
  have h3: "initialise no_matcher zero_draws partitioned [] True ''split.csv'' None
     = (Inl ValueError,
        snd (initialise no_matcher zero_draws partitioned [] True ''split.csv'' None))"
    by (simp add: initialise_def load_data_sections_by_subject_def)
  then have d1: "fst (initialise no_matcher zero_draws partitioned [] True ''split.csv'' None)
       = Inl ValueError"
    by (metis fst_conv)
  from initialise_failure_state [OF h3]
  have d2: "file_list (snd (initialise no_matcher zero_draws partitioned [] True ''split.csv'' None))
       = None"
    by blast
  show ?thesis by (intro conjI a1 a2 a3 b1 b2 c d1 d2)
qed
subsection \<open>Merging the sections\<close>

lemma keys_enumerate: "map (\<lambda>(i, s, cs). s) (enumerate n xs) = map fst xs"
  by (induction xs arbitrary: n) auto

lemma subject_ids_merge:
  "subject_ids (pandas_merge l r) = map fst (join_rows (rows l) (rows r))"
  by (simp add: subject_ids_def pandas_merge_def keys_enumerate)

lemma length_filter_key:
  "length (filter (\<lambda>(j, t, ds). t = s) rs) = count_list (map (\<lambda>(j, t, ds). t) rs) s"
  by (induction rs) auto

lemma keys_join_rows:
  "map fst (join_rows ls rs) =
     concat (map (\<lambda>s. replicate (count_list (map (\<lambda>(j, t, ds). t) rs) s) s)
                 (map (\<lambda>(i, s, cs). s) ls))"
proof (induction ls)
  case Nil
  show ?case by (simp add: join_rows_def)
next
  case (Cons x ls)
  obtain i s cs where x: "x = (i, s, cs)" by (cases x)
  have "map fst (map (\<lambda>(j, t, ds). (s, cs @ ds)) (filter (\<lambda>(j, t, ds). t = s) rs))
          = replicate (length (filter (\<lambda>(j, t, ds). t = s) rs)) s"
    by (induction rs) auto
  with Cons show ?case
    by (simp add: join_rows_def x length_filter_key)
qed

lemma subject_ids_merge_count:
  "subject_ids (pandas_merge l r) =
     concat (map (\<lambda>s. replicate (count_list (subject_ids r) s) s) (subject_ids l))"
  unfolding subject_ids_merge keys_join_rows by (simp add: subject_ids_def)

lemma set_subject_ids_merge:
  "set (subject_ids (pandas_merge l r)) = set (subject_ids l) \<inter> set (subject_ids r)"
  by (auto simp: subject_ids_merge_count count_list_0_iff)

lemma count_list_distinct:
  "distinct xs \<Longrightarrow> count_list xs x = (if x \<in> set xs then 1 else 0)"
  by (induction xs) auto

lemma subject_ids_merge_distinct:
  assumes "distinct (subject_ids r)"
  shows "subject_ids (pandas_merge l r)
           = filter (\<lambda>s. s \<in> set (subject_ids r)) (subject_ids l)"
proof -
  have one: "\<And>s. count_list (subject_ids r) s = (if s \<in> set (subject_ids r) then 1 else 0)"
    using assms by (simp add: count_list_distinct)
  have "concat (map (\<lambda>s. replicate (if s \<in> set (subject_ids r) then 1 else 0) s) xs)
          = filter (\<lambda>s. s \<in> set (subject_ids r)) xs" for xs
    by (induction xs) auto
  then show ?thesis by (simp add: subject_ids_merge_count one)
qed


lemma length_rows_merge: "length (rows (pandas_merge l r)) = length (subject_ids (pandas_merge l r))"
  by (simp add: subject_ids_def)

lemma count_ids_merge_distinct:
  assumes "distinct (subject_ids l)" and "distinct (subject_ids r)"
    and "None \<notin> set (subject_ids l)"
  shows "length (rows (pandas_merge l r)) = card (set (subject_ids l) \<inter> set (subject_ids r))"
    and "count_ids (pandas_merge l r) = card (set (subject_ids l) \<inter> set (subject_ids r))"
    and "distinct (subject_ids (pandas_merge l r))"
proof -
  have "{x. x \<in> set (subject_ids r)} \<inter> set (subject_ids l)
          = set (subject_ids l) \<inter> set (subject_ids r)"
    by auto
  then show len: "length (rows (pandas_merge l r))
      = card (set (subject_ids l) \<inter> set (subject_ids r))"
    using assms(1,2)
    by (simp add: length_rows_merge subject_ids_merge_distinct distinct_length_filter)
  have "None \<notin> set (subject_ids (pandas_merge l r))"
    using assms(3) by (simp add: set_subject_ids_merge)
  then have "filter (\<lambda>c. c \<noteq> None) (subject_ids (pandas_merge l r))
      = subject_ids (pandas_merge l r)"
    unfolding filter_id_conv by (metis not_None_eq)
  then show "count_ids (pandas_merge l r) = card (set (subject_ids l) \<inter> set (subject_ids r))"
    using len by (simp add: count_ids_def length_rows_merge)
  show "distinct (subject_ids (pandas_merge l r))"
    using assms(1,2) by (simp add: subject_ids_merge_distinct)
qed

subsection \<open>The loop against the merger of the specification\<close>

lemma grep_sim:
  assumes "same_inputs a b"
  shows "fst (grep_files_by_data_section m a n) = fst (grep_files_by_data_section m b n)"
    and "same_inputs (snd (grep_files_by_data_section m a n))
           (snd (grep_files_by_data_section m b n))"
proof -
  from assms have eq: "data_param a = data_param b" "files a = files b"
    "na_values a = na_values b"
    by (simp_all add: same_inputs_def)
  show "fst (grep_files_by_data_section m a n) = fst (grep_files_by_data_section m b n)"
    by (auto simp: grep_files_by_data_section_def eq logging_def write_file_def Let_def
        split: option.splits sum.splits)
  show "same_inputs (snd (grep_files_by_data_section m a n))
           (snd (grep_files_by_data_section m b n))"
    by (auto simp: grep_files_by_data_section_def eq logging_def write_file_def Let_def
        same_inputs_def split: option.splits sum.splits)
qed

lemma warnings_logging:
  "warnings (logging l msg st) = warnings st @ (if l = WARNING then [msg] else [])"
  by (simp add: warnings_def logging_def)

lemma grep_warnings:
  "grep_files_by_data_section m st n = (r, st') \<Longrightarrow> warnings st' = warnings st"
  by (auto simp: grep_files_by_data_section_def warnings_def logging_def write_file_def Let_def
      split: option.splits sum.splits prod.splits if_splits)

lemma load_loop_refines:
  assumes "same_inputs a b" and "section_tables m b ns = Some nts"
    and "file_list a = Some running"
  shows "\<exists>st'. load_loop m a ns = (None, st')
           \<and> file_list st' = Some (fst (join_all running nts))
           \<and> warnings st' = warnings a @ map Rows_not_matched (snd (join_all running nts))"
  using assms
proof (induction ns arbitrary: a b nts running)
  case Nil
  then show ?case by simp
next
  case (Cons n ns)
  obtain rb b1 where gb: "grep_files_by_data_section m b n = (rb, b1)"
    by (cases "grep_files_by_data_section m b n")
  with Cons.prems(2) obtain t nts' where t: "rb = Inr t"
    and tabs: "section_tables m b1 ns = Some nts'" and nts: "nts = (n, t) # nts'"
    by (cases rb) (auto split: option.splits)
  obtain ra a1 where ga: "grep_files_by_data_section m a n = (ra, a1)"
    by (cases "grep_files_by_data_section m a n")
  from grep_sim [OF Cons.prems(1), of m n] ga gb t
  have ra: "ra = Inr t" and sim: "same_inputs a1 b1" by simp_all
  note ga' = ga [unfolded ra]
  define joined where "joined = pandas_merge running t"
  define a2 where "a2 = a1\<lparr>file_list := Some joined,
      logged := logged a1 @ (if count_ids joined < count_ids running
                             then [(WARNING, Rows_not_matched n)] else [])\<rparr>"
  have step: "load_loop m a (n # ns) = load_loop m a2 ns"
    using load_loop_Cons_merge [OF ga' Cons.prems(3)] by (simp add: a2_def joined_def)
  have sim2: "same_inputs a2 b1" using sim by (simp add: same_inputs_def a2_def)
  have fl2: "file_list a2 = Some joined" by (simp add: a2_def)
  have w2: "warnings a2 = warnings a @ (if count_ids joined < count_ids running
                                        then [Rows_not_matched n] else [])"
    using grep_warnings [OF ga'] by (simp add: warnings_def a2_def)
  from Cons.IH [OF sim2 tabs fl2] obtain st' where
    l: "load_loop m a2 ns = (None, st')"
    and f: "file_list st' = Some (fst (join_all joined nts'))"
    and w: "warnings st' = warnings a2 @ map Rows_not_matched (snd (join_all joined nts'))"
    by blast
  have j: "join_all running nts =
      (fst (join_all joined nts'),
       (if count_ids joined < count_ids running then [n] else []) @ snd (join_all joined nts'))"
    by (simp add: nts joined_def Let_def case_prod_unfold)
  from step l f w w2 j show ?case by simp
qed

text \<open>
  C5, as stated, fails: the first section lists the subject s1 twice and the second lists
  it once, so the two tables share exactly one subject id, and the merged table has two
  rows (and no warning is logged, since two subject ids became two).
\<close>

theorem merge_repeated_ids_counterexample:
  "load_data_sections_by_subject no_matcher repeated_ids =
     (Inr (), repeated_ids\<lparr>file_list := Some \<lparr>columns = [''T1'', ''T2''],
                  rows = [(0, Some ''s1'', [Some ''a.nii'', Some ''b.nii'']),
                          (1, Some ''s1'', [Some ''a2.nii'', Some ''b.nii''])]\<rparr>,
                logged := [(INFO, Using_existing_csv ''T1'' ''t1.csv''),
                           (INFO, Using_existing_csv ''T2'' ''t2.csv'')]\<rparr>)
   \<and> card (set [''s1'', ''s1''] \<inter> set [''s1'']) = 1"
  by (simp add: eval_loader repeated_ids_def)

text \<open>
  C5, amended: for every ordered list of sections whose tables the loader returns, the
  merger starts from the table of the first section and joins the table of each further
  section to the running table on the subject id, in the order of the list; the file
  table it leaves is the last of these joins. The warning that names a section is logged
  if and only if the join with the table of that section leaves fewer subject ids (rows
  whose id is not missing) than the running table had, and these are all the warnings
  the merger logs. It raises \<^verbatim>\<open>IOError\<close> if and only if the final table has no rows.
  When no subject id occurs twice within either of two tables and none is missing in the
  first, their join has exactly as many rows as the tables have subject ids in common;
  in every case its subject ids are the common ones.
\<close>

theorem merger_joins_sections:
  assumes "section_tables m st (map fst (data_param st)) = Some ((n1, t1) # rest)"
  shows "file_list (snd (load_data_sections_by_subject m st)) = Some (fst (join_all t1 rest))
       \<and> warnings (snd (load_data_sections_by_subject m st))
           = warnings st @ map Rows_not_matched (snd (join_all t1 rest))
       \<and> fst (load_data_sections_by_subject m st)
           = (if rows (fst (join_all t1 rest)) = [] then Inl IOError else Inr ())
       \<and> join_all running ((name, t) # others)
           = (fst (join_all (pandas_merge running t) others),
              (if count_ids (pandas_merge running t) < count_ids running then [name] else [])
              @ snd (join_all (pandas_merge running t) others))
       \<and> join_all running [] = (running, [])
       \<and> set (subject_ids (pandas_merge l r)) = set (subject_ids l) \<inter> set (subject_ids r)
       \<and> (distinct (subject_ids l) \<and> distinct (subject_ids r) \<and> None \<notin> set (subject_ids l)
            \<longrightarrow> length (rows (pandas_merge l r))
                  = card (set (subject_ids l) \<inter> set (subject_ids r))
                \<and> count_ids (pandas_merge l r)
                  = card (set (subject_ids l) \<inter> set (subject_ids r)))"
proof -
  from assms obtain ns where names: "map fst (data_param st) = n1 # ns"
    by (cases "map fst (data_param st)") (auto split: prod.splits sum.splits option.splits)
  then have ne: "data_param st \<noteq> []" by auto
  obtain rb b1 where gb: "grep_files_by_data_section m st n1 = (rb, b1)"
    by (cases "grep_files_by_data_section m st n1")
  with assms names have rb: "rb = Inr t1" and tabs: "section_tables m b1 ns = Some rest"
    by (cases rb; auto split: option.splits)+
  define a where "a = st\<lparr>file_list := None\<rparr>"
  have sim: "same_inputs a st" by (simp add: same_inputs_def a_def)
  obtain ra a1 where ga: "grep_files_by_data_section m a n1 = (ra, a1)"
    by (cases "grep_files_by_data_section m a n1")
  from grep_sim [OF sim, of m n1] ga gb rb
  have ra: "ra = Inr t1" and sim1: "same_inputs a1 b1" by simp_all
  note ga' = ga [unfolded ra]
  have first: "load_loop m a (n1 # ns) = load_loop m (a1\<lparr>file_list := Some t1\<rparr>) ns"
    by (rule load_loop_Cons_first [OF ga']) (simp add: a_def)
  have sim2: "same_inputs (a1\<lparr>file_list := Some t1\<rparr>) b1"
    using sim1 by (simp add: same_inputs_def)
  from load_loop_refines [OF sim2 tabs, of t1] obtain st' where
    l: "load_loop m (a1\<lparr>file_list := Some t1\<rparr>) ns = (None, st')"
    and f: "file_list st' = Some (fst (join_all t1 rest))"
    and w: "warnings st' = warnings (a1\<lparr>file_list := Some t1\<rparr>)
              @ map Rows_not_matched (snd (join_all t1 rest))"
    by auto
  have w1: "warnings (a1\<lparr>file_list := Some t1\<rparr>) = warnings st"
    using grep_warnings [OF ga'] by (simp add: warnings_def a_def)
  have loop: "load_loop m (st\<lparr>file_list := None\<rparr>) (map fst (data_param st)) = (None, st')"
    using first l by (simp add: names a_def)
  have res: "load_data_sections_by_subject m st =
      (if rows (fst (join_all t1 rest)) = []
       then (Inl IOError, logging FATAL Empty_filename_lists st') else (Inr (), st'))"
    using load_data_unfold [OF ne loop] f by simp
  have c1: "file_list (snd (load_data_sections_by_subject m st)) = Some (fst (join_all t1 rest))"
    using res f by (simp add: logging_def)
  have c2: "warnings (snd (load_data_sections_by_subject m st))
           = warnings st @ map Rows_not_matched (snd (join_all t1 rest))"
    using res w w1 by (simp add: warnings_logging)
  have c3: "fst (load_data_sections_by_subject m st)
           = (if rows (fst (join_all t1 rest)) = [] then Inl IOError else Inr ())"
    using res by simp
  have c4: "join_all running ((name, t) # others)
           = (fst (join_all (pandas_merge running t) others),
              (if count_ids (pandas_merge running t) < count_ids running then [name] else [])
              @ snd (join_all (pandas_merge running t) others))"
    by (simp add: Let_def case_prod_unfold)
  have c5: "join_all running [] = (running, [])" by simp
  note c6 = set_subject_ids_merge [of l r]
  have c7: "distinct (subject_ids l) \<and> distinct (subject_ids r) \<and> None \<notin> set (subject_ids l)
            \<longrightarrow> length (rows (pandas_merge l r))
                  = card (set (subject_ids l) \<inter> set (subject_ids r))
                \<and> count_ids (pandas_merge l r)
                  = card (set (subject_ids l) \<inter> set (subject_ids r))"
    using count_ids_merge_distinct(1,2) [of l r] by blast
  show ?thesis by (intro conjI c1 c2 c3 c4 c5 c6 c7)
qed


theorem merger_joins_sections_witness:
  "fst (load_data_sections_by_subject no_matcher three_lists) = Inr ()
   \<and> file_list (snd (load_data_sections_by_subject no_matcher three_lists))
       = Some \<lparr>columns = [''T1'', ''T2'', ''T3''],
               rows = [(0, Some ''s3'', [Some ''a3'', Some ''b3'', Some ''c3''])]\<rparr>
   \<and> warnings (snd (load_data_sections_by_subject no_matcher three_lists))
       = [Rows_not_matched ''T2'', Rows_not_matched ''T3'']
   \<and> distinct (subject_ids t1_table) \<and> distinct (subject_ids t2_table)
   \<and> None \<notin> set (subject_ids t1_table)
   \<and> card (set (subject_ids t1_table) \<inter> set (subject_ids t2_table)) = 2
   \<and> length (rows (pandas_merge t1_table t2_table)) = 2
   \<and> count_ids (pandas_merge t1_table t2_table) = 2"
proof -
  define a where "a = \<lparr>columns = [''T1''],
      rows = [(0, Some ''s1'', [Some ''a1'']), (1, Some ''s2'', [Some ''a2'']),
              (2, None, [Some ''a0'']), (3, Some ''s3'', [Some ''a3''])]\<rparr>"
  define b where "b = \<lparr>columns = [''T2''],
      rows = [(0, Some ''s2'', [Some ''b2'']), (1, Some ''s3'', [Some ''b3'']),
              (2, Some ''s4'', [Some ''b4''])]\<rparr>"
  define c where "c = \<lparr>columns = [''T3''],
      rows = [(0, Some ''s3'', [Some ''c3'']), (1, Some ''s5'', [Some ''c5''])]\<rparr>"
  have names: "map fst (data_param three_lists) = [''T1'', ''T2'', ''T3'']"
    by (simp add: three_lists_def three_sections_def)
  have "section_tables no_matcher three_lists [''T1'', ''T2'', ''T3'']
      = Some [(''T1'', a), (''T2'', b), (''T3'', c)]"
    by (simp add: grep_files_by_data_section_def searches_def logging_def read_csv_def
        read_rows_def na_cell_def pandas_na_values_def COLUMN_UNIQ_ID_def named_def
        three_lists_def three_sections_def fresh_def no_files_def a_def b_def c_def)
  then have h: "section_tables no_matcher three_lists (map fst (data_param three_lists))
      = Some ((''T1'', a) # [(''T2'', b), (''T3'', c)])"
    by (simp add: names)
  have j: "join_all a [(''T2'', b), (''T3'', c)]
      = (\<lparr>columns = [''T1'', ''T2'', ''T3''],
          rows = [(0, Some ''s3'', [Some ''a3'', Some ''b3'', Some ''c3''])]\<rparr>,
         [''T2'', ''T3''])"
    by (simp add: a_def b_def c_def pandas_merge_def join_rows_def count_ids_def
        subject_ids_def)
  have w0: "warnings three_lists = []"
    by (simp add: warnings_def three_lists_def fresh_def)
  have d1: "distinct (subject_ids t1_table)" by (simp add: subject_ids_def t1_table_def)
  have d2: "distinct (subject_ids t2_table)" by (simp add: subject_ids_def t2_table_def)
  have d3: "None \<notin> set (subject_ids t1_table)" by (simp add: subject_ids_def t1_table_def)
  have k: "card (set (subject_ids t1_table) \<inter> set (subject_ids t2_table)) = 2"
    by (simp add: subject_ids_def t1_table_def t2_table_def)
  note w = merger_joins_sections [OF h, of _ _ _ _ t1_table t2_table, unfolded j w0 k]
  from w have r1: "fst (load_data_sections_by_subject no_matcher three_lists) = Inr ()"
    by simp
  from w have r2: "file_list (snd (load_data_sections_by_subject no_matcher three_lists))
       = Some \<lparr>columns = [''T1'', ''T2'', ''T3''],
               rows = [(0, Some ''s3'', [Some ''a3'', Some ''b3'', Some ''c3''])]\<rparr>"
    by simp
  from w have r3: "warnings (snd (load_data_sections_by_subject no_matcher three_lists))
       = [Rows_not_matched ''T2'', Rows_not_matched ''T3'']"
    by simp
  from w d1 d2 d3 have r4: "length (rows (pandas_merge t1_table t2_table)) = 2"
    and r5: "count_ids (pandas_merge t1_table t2_table) = 2"
    by simp_all
  show ?thesis by (intro conjI r1 r2 r3 d1 d2 d3 k r4 r5)
qed
subsection \<open>Loading an existing split\<close>

lemma grep_written:
  assumes "grep_files_by_data_section m st n = (Inr t, s1)"
  shows "files s1 p = (case written m (data_param st) [n] p of
                         None \<Rightarrow> files st p | Some rs \<Rightarrow> Some (Csv rs))"
  using assms
  by (auto simp: grep_files_by_data_section_def logging_def write_file_def Let_def
      split: option.splits sum.splits prod.splits if_splits)

lemma load_loop_written:
  "load_loop m st ns = (None, st') \<Longrightarrow>
     files st' p = (case written m (data_param st) ns p of
                      None \<Rightarrow> files st p | Some rs \<Rightarrow> Some (Csv rs))"
proof (induction ns arbitrary: st)
  case Nil
  then show ?case by simp
next
  case (Cons n ns)
  show ?case
  proof (cases rule: load_loop_cases [of m st n ns])
    case (error e s1)
    with Cons.prems show ?thesis by simp
  next
    case (continue t s1 s2)
    from Cons.prems continue(2) have l: "load_loop m s2 ns = (None, st')" by simp
    have dp: "data_param s2 = data_param st"
      using grep_settings(1) [OF continue(1)] continue(3) by (simp add: same_settings_def)
    have f: "files s2 p = (case written m (data_param st) [n] p of
                         None \<Rightarrow> files st p | Some rs \<Rightarrow> Some (Csv rs))"
      using grep_written [OF continue(1), of p] continue(4) by simp
    from Cons.IH [OF l] dp f show ?thesis
      by (auto split: option.splits)
  qed
qed


lemma load_data_written:
  assumes "load_data_sections_by_subject m st = (Inr (), st')"
  shows "files st' p = (case written m (data_param st) (map fst (data_param st)) p of
                          None \<Rightarrow> files st p | Some rs \<Rightarrow> Some (Csv rs))"
proof -
  from assms have ne: "data_param st \<noteq> []"
    by (auto simp: load_data_sections_by_subject_def)
  obtain r1 s1 where l: "load_loop m (st\<lparr>file_list := None\<rparr>) (map fst (data_param st)) = (r1, s1)"
    by (cases "load_loop m (st\<lparr>file_list := None\<rparr>) (map fst (data_param st))")
  from assms load_data_unfold [OF ne l] have "r1 = None" "st' = s1"
    by (auto split: option.splits if_splits)
  with load_loop_written [of m "st\<lparr>file_list := None\<rparr>" "map fst (data_param st)" st' p] l
  show ?thesis by (simp split: option.splits)
qed

lemma not_rewritten_written:
  "not_rewritten dp p \<Longrightarrow> written m dp ns p = None"
proof (induction ns)
  case Nil
  show ?case by simp
next
  case (Cons n ns)
  have "\<And>sec. map_of dp n = Some sec \<Longrightarrow> \<not> (searches sec \<and> csv_file sec = Some p)"
    using Cons.prems by (auto simp: not_rewritten_def dest!: map_of_SomeD)
  with Cons show ?case by (auto split: option.splits)
qed

lemma split_load:
  "randomly_split_dataset rnd st False =
     (Inr (),
      (case files st (data_split_file st) of
         None \<Rightarrow> (if ratios st \<noteq> None \<and> ratios st \<noteq> Some []
                   then logging WARNING Ignoring_ratios st else st)
       | Some Unparsable \<Rightarrow>
           logging WARNING (Csv_error ParserError)
             (if ratios st \<noteq> None \<and> ratios st \<noteq> Some []
              then logging WARNING Ignoring_ratios st else st)
       | Some (Csv rs) \<Rightarrow>
           (if ratios st \<noteq> None \<and> ratios st \<noteq> Some []
            then logging WARNING Ignoring_ratios st else st)
           \<lparr>partition_ids := Some (read_rows (na_values st) rs)\<rparr>))"
  by (auto simp: randomly_split_dataset_def read_partition logging_def
      split: option.splits csv_content.splits)

lemma initialise_load_path:
  assumes "initialise m rnd st dp False split_file r = (Inr (), st')"
  shows "files st' p = (case written m dp (map fst dp) p of
                          None \<Rightarrow> files st p | Some rs \<Rightarrow> Some (Csv rs))"
    and "partition_ids st' = (case files st' split_file of
                                Some (Csv rs) \<Rightarrow> Some (read_rows (na_values st') rs)
                              | _ \<Rightarrow> None)"
    and "na_values st' = na_values st"
proof -
  define st0 where "st0 = st\<lparr>data_param := dp, data_split_file := split_file, ratios := r,
                   file_list := None, partition_ids := None\<rparr>"
  obtain r1 s1 where l: "load_data_sections_by_subject m st0 = (r1, s1)"
    by (cases "load_data_sections_by_subject m st0")
  have init: "initialise m rnd st dp False split_file r =
     (case r1 of
        Inl e \<Rightarrow> (Inl e, s1)
      | Inr u \<Rightarrow>
          (case randomly_split_dataset rnd (s1\<lparr>new_partition := False\<rparr>) False of
             (Inl e, st2) \<Rightarrow> (Inl e, st2)
           | (Inr u, st2) \<Rightarrow> (Inr (), logging INFO Summary st2)))"
    using l by (simp add: initialise_def st0_def [symmetric])
  from init assms obtain u where r1: "r1 = Inr u" by (cases r1) auto
  then have l': "load_data_sections_by_subject m st0 = (Inr (), s1)" using l by simp
  have "same_settings st0 s1" by (rule load_data_settings [OF l])
  then have sf: "data_split_file s1 = split_file" and p1: "partition_ids s1 = None"
    and na: "na_values s1 = na_values st"
    by (simp_all add: same_settings_def st0_def)
  have f: "files s1 q = (case written m dp (map fst dp) q of
                          None \<Rightarrow> files st q | Some rs \<Rightarrow> Some (Csv rs))" for q
    using load_data_written [OF l', of q] by (simp add: st0_def split: option.splits)
  define s1' where "s1' = s1\<lparr>new_partition := False\<rparr>"
  have s1': "files s1' = files s1" "data_split_file s1' = split_file" "partition_ids s1' = None"
    "na_values s1' = na_values st"
    by (simp_all add: s1'_def sf p1 na)
  obtain s2 where sp: "randomly_split_dataset rnd s1' False = (Inr (), s2)"
    and s2: "files s2 = files s1'"
      "partition_ids s2 = (case files s1' split_file of
                                Some (Csv rs) \<Rightarrow> Some (read_rows (na_values st) rs)
                              | _ \<Rightarrow> None)"
      "na_values s2 = na_values st"
    using split_load [of rnd s1'] s1'
    by (auto simp: logging_def split: option.splits csv_content.splits)
  from init r1 sp assms have st': "st' = logging INFO Summary s2"
    by (simp add: s1'_def)
  show "files st' p = (case written m dp (map fst dp) p of
                          None \<Rightarrow> files st p | Some rs \<Rightarrow> Some (Csv rs))"
    by (simp add: st' logging_def s2 s1' f)
  show na': "na_values st' = na_values st"
    by (simp add: st' logging_def s2)
  show "partition_ids st' = (case files st' split_file of
                                Some (Csv rs) \<Rightarrow> Some (read_rows (na_values st') rs)
                              | _ \<Rightarrow> None)"
    unfolding na' by (simp add: st' logging_def s2 s1')
qed

text \<open>
  C6: \<^verbatim>\<open>initialise\<close> is called twice with \<^verbatim>\<open>new_partition=False\<close>, for the same
  sections and the same split file, and both calls return. Then the partition table is
  the same both times, and the second call leaves every file as the first left it. The
  table is the content of the split file, row by row: no ratio, no draw of the random
  source and no subject id of the file table enters it (they may all differ between the
  calls). Unless a section that searches has its csv file at the path of the split file,
  this content is the one the split file had before the first call.
\<close>

theorem initialise_twice_same_partition:
  assumes "initialise m rnd st dp False split_file r = (Inr (), st1)"
    and "initialise m rnd' st1 dp False split_file r' = (Inr (), st2)"
  shows "partition_ids st2 = partition_ids st1
       \<and> files st2 = files st1
       \<and> partition_ids st1 = (case files st1 split_file of
                                 Some (Csv rs) \<Rightarrow> Some (read_rows (na_values st1) rs)
                               | _ \<Rightarrow> None)
       \<and> (not_rewritten dp split_file \<longrightarrow> files st1 split_file = files st split_file)"
proof -
  note first = initialise_load_path [OF assms(1)]
  note second = initialise_load_path [OF assms(2)]
  have "files st2 p = files st1 p" for p
    using first(1) [of p] second(1) [of p] by (simp split: option.splits)
  then have f: "files st2 = files st1" by (rule ext)
  have nr: "not_rewritten dp split_file \<longrightarrow> files st1 split_file = files st split_file"
    using first(1) [of split_file] by (simp add: not_rewritten_written)
  from first(2,3) second(2,3) f nr show ?thesis
    by (simp split: option.splits csv_content.splits)
qed

lemmas eval_initialise =
  initialise_def randomly_split_dataset_def COLUMN_PHASE_def eval_loader

lemma initialise_unmatched:
  "initialise no_matcher zero_draws unmatched two_sections False ''split.csv'' None =
     (Inr (), unmatched\<lparr>file_list := Some \<lparr>columns = [''T1'', ''T2''],
                  rows = [(0, Some ''s2'', [Some ''a2'', Some ''b2'']),
                          (1, Some ''s3'', [Some ''a3'', Some ''b3''])]\<rparr>,
                partition_ids := Some [(0, Some ''s2'', Some ''train''), (1, Some ''s9'', Some ''inference'')],
                logged := [(INFO, Using_existing_csv ''T1'' ''t1.csv''),
                           (INFO, Using_existing_csv ''T2'' ''t2.csv''),
                           (WARNING, Rows_not_matched ''T2''), (INFO, Summary)]\<rparr>)"
  by (simp add: eval_initialise unmatched_def)

lemma initialise_unmatched_again:
  "fst (initialise no_matcher Suc 
     (snd (initialise no_matcher zero_draws unmatched two_sections False ''split.csv'' None))
     two_sections False ''split.csv'' None) = Inr ()"
  unfolding initialise_unmatched
  by (simp add: eval_initialise unmatched_def)

theorem initialise_twice_same_partition_witness:
  "files unmatched ''split.csv'' = Some (Csv [(''s2'', ''train''), (''s9'', ''inference'')])
   \<and> not_rewritten two_sections ''split.csv''
   \<and> fst (initialise no_matcher zero_draws unmatched two_sections False ''split.csv'' None)
       = Inr ()
   \<and> partition_ids
        (snd (initialise no_matcher zero_draws unmatched two_sections False ''split.csv'' None))
       = Some [(0, Some ''s2'', Some ''train''), (1, Some ''s9'', Some ''inference'')]
   \<and> partition_ids
        (snd (initialise no_matcher Suc
           (snd (initialise no_matcher zero_draws unmatched two_sections False ''split.csv''
                   None))
           two_sections False ''split.csv'' None))
       = Some [(0, Some ''s2'', Some ''train''), (1, Some ''s9'', Some ''inference'')]"
proof -
  define st1 where
    "st1 = snd (initialise no_matcher zero_draws unmatched two_sections False ''split.csv'' None)"
  define st2 where
    "st2 = snd (initialise no_matcher Suc st1 two_sections False ''split.csv'' None)"
  have h1: "files unmatched ''split.csv''
      = Some (Csv [(''s2'', ''train''), (''s9'', ''inference'')])"
    by (simp add: unmatched_def)
  have h2: "not_rewritten two_sections ''split.csv''"
    by (simp add: not_rewritten_def two_sections_def searches_def)
  have f1: "fst (initialise no_matcher zero_draws unmatched two_sections False ''split.csv'' None)
       = Inr ()"
    by (simp add: initialise_unmatched)
  then have h3: "initialise no_matcher zero_draws unmatched two_sections False ''split.csv'' None
       = (Inr (), st1)"
    by (simp add: st1_def prod_eq_iff)
  have h4: "initialise no_matcher Suc st1 two_sections False ''split.csv'' None
       = (Inr (), st2)"
    using initialise_unmatched_again by (simp add: st1_def st2_def prod_eq_iff)
  note w = initialise_twice_same_partition [OF h3 h4]
  from w h2 h1 have "files st1 ''split.csv''
      = Some (Csv [(''s2'', ''train''), (''s9'', ''inference'')])"
    by simp
  moreover have "na_values st1 = pandas_na_values"
    unfolding st1_def initialise_unmatched by (simp add: unmatched_def fresh_def)
  moreover have "read_rows pandas_na_values [(''s2'', ''train''), (''s9'', ''inference'')]
      = [(0, Some ''s2'', Some ''train''), (1, Some ''s9'', Some ''inference'')]"
    by (simp add: read_rows_def na_cell_def pandas_na_values_def)
  ultimately have "partition_ids st1
      = Some [(0, Some ''s2'', Some ''train''), (1, Some ''s9'', Some ''inference'')]"
    and "partition_ids st2
      = Some [(0, Some ''s2'', Some ''train''), (1, Some ''s9'', Some ''inference'')]"
    using w by simp_all
  with h1 h2 f1 show ?thesis by (simp add: st1_def st2_def)
qed

end
